theory Spec2Isabelle
  imports Main
begin

section \<open>The Nachos file system: directories, path resolution, create, remove, descriptors\<close>

text \<open>
  A shallow embedding of \<^verbatim>\<open>src/code/filesys/filesys.cc\<close>, which holds both
  \<^verbatim>\<open>filesys.cc\<close> (the class FileSystem) and \<^verbatim>\<open>directory.cc\<close> (the class Directory).
  C strings are \<open>string\<close>s without the terminating NUL; \<open>int\<close> values of the source are
  \<open>int\<close>; \<open>-1\<close> is the not-found value the source returns.
\<close>

subsection \<open>What the headers and collaborators outside the source provide\<close>

text \<open>
  Modelled from the spec: \<^verbatim>\<open>filehdr.h\<close> is not part of the source; the spec has a header
  that "may chain to a successor header", with "nextChainedHeaderSector" and
  "nextChainedHeader". A file header as the code uses it: \<^verbatim>\<open>GetNextFileHeaderSector()\<close> and
  \<^verbatim>\<open>GetNextFileHeader()\<close> (declared in filehdr.h, which is not part of the source) read
  the sector of the next header of the chain and the pointer to it (NULL is \<open>None\<close>).
\<close>

datatype FileHeader =
  FileHeader (dataSectors: "int list") (GetNextFileHeaderSector: int)
    (GetNextFileHeader: "FileHeader option")

text \<open>
  The constants and collaborators that \<^verbatim>\<open>directory.h\<close>, \<^verbatim>\<open>disk.h\<close> and
  \<^verbatim>\<open>filehdr.cc\<close> define are parameters of the model:
  \<^item> \<open>FileNameMaxLen\<close>: the bound on the characters of a name that an entry keeps;
  \<^item> \<open>NumSectors\<close>: the number of sectors of the disk, the size of the bitmap;
  \<^item> \<open>sizeofDirectoryEntry\<close>: \<^verbatim>\<open>sizeof(DirectoryEntry)\<close>;
  \<^item> \<open>Allocate\<close>: \<^verbatim>\<open>FileHeader::Allocate(freeMap, size)\<close>, \<open>None\<close> when it returns FALSE,
    otherwise the header and the bitmap it leaves;
  \<^item> \<open>Deallocate\<close>: \<^verbatim>\<open>FileHeader::Deallocate(freeMap)\<close>, the bitmap it leaves.
\<close>

record env =
  FileNameMaxLen :: nat
  NumSectors :: nat
  sizeofDirectoryEntry :: int
  Allocate :: "int set \<Rightarrow> int \<Rightarrow> (FileHeader \<times> int set) option"
  Deallocate :: "FileHeader \<Rightarrow> int set \<Rightarrow> int set"

definition FreeMapSector :: int where
  "FreeMapSector = 0"

definition DirectorySector :: int where
  "DirectorySector = 1"

definition NumDirEntries :: nat where
  "NumDirEntries = 64"

definition DirectoryFileSize :: "env \<Rightarrow> int" where
  "DirectoryFileSize E = sizeofDirectoryEntry E * int NumDirEntries"

subsection \<open>C strings\<close>

text \<open>\<^verbatim>\<open>!strncmp(a, b, n)\<close>: the two strings agree on their first \<open>n\<close> characters.\<close>

definition strncmp0 :: "string \<Rightarrow> string \<Rightarrow> nat \<Rightarrow> bool" where
  "strncmp0 a b n = (take n a = take n b)"

text \<open>
  \<^verbatim>\<open>strncpy(dst, src, n)\<close> into an entry's name, read back as a C string: the first \<open>n\<close>
  characters of \<open>src\<close> (the array has \<open>n + 1\<close> bytes and its last byte stays 0).
\<close>

definition strncpy :: "string \<Rightarrow> nat \<Rightarrow> string" where
  "strncpy src n = take n src"

subsection \<open>Directory entries and tables (directory.cc)\<close>

record DirectoryEntry =
  inUse :: bool
  sector :: int
  name :: string
  dFlag :: bool

type_synonym Directory = "DirectoryEntry list"

text \<open>The constructor \<^verbatim>\<open>Directory::Directory(size)\<close>: zeroed entries, none in use.\<close>

definition emptyEntry :: DirectoryEntry where
  "emptyEntry = \<lparr>inUse = False, sector = 0, name = [], dFlag = False\<rparr>"

definition newDirectory :: "nat \<Rightarrow> Directory" where
  "newDirectory n = replicate n emptyEntry"

text \<open>\<^verbatim>\<open>Directory::FindIndex\<close>: the loop from index \<open>i\<close> on.\<close>

fun FindIndex_loop :: "env \<Rightarrow> Directory \<Rightarrow> string \<Rightarrow> nat \<Rightarrow> int" where
  "FindIndex_loop E [] nm i = -1"
| "FindIndex_loop E (e # es) nm i =
     (if inUse e \<and> strncmp0 (name e) nm (FileNameMaxLen E) then int i
      else FindIndex_loop E es nm (Suc i))"

definition FindIndex :: "env \<Rightarrow> Directory \<Rightarrow> string \<Rightarrow> int" where
  "FindIndex E table nm = FindIndex_loop E table nm 0"

definition Find :: "env \<Rightarrow> Directory \<Rightarrow> string \<Rightarrow> int" where
  "Find E table nm =
     (let i = FindIndex E table nm in
      if i \<noteq> -1 then sector (table ! nat i) else -1)"

text \<open>
  \<^verbatim>\<open>Directory::GetFlag\<close> returns a \<^verbatim>\<open>bool\<close>: its \<^verbatim>\<open>return -1\<close> for a name that is not
  found converts to \<open>True\<close>.
\<close>

definition GetFlag :: "env \<Rightarrow> Directory \<Rightarrow> string \<Rightarrow> bool" where
  "GetFlag E table nm =
     (let i = FindIndex E table nm in
      if i \<noteq> -1 then dFlag (table ! nat i) else True)"

text \<open>The second loop of \<^verbatim>\<open>Directory::Add\<close>: the first index, from \<open>i\<close> on, not in use.\<close>

fun Add_loop :: "Directory \<Rightarrow> nat \<Rightarrow> nat option" where
  "Add_loop [] i = None"
| "Add_loop (e # es) i = (if \<not> inUse e then Some i else Add_loop es (Suc i))"

definition Add :: "env \<Rightarrow> Directory \<Rightarrow> string \<Rightarrow> int \<Rightarrow> bool \<Rightarrow> bool \<times> Directory" where
  "Add E table nm newSector flag =
     (if FindIndex E table nm \<noteq> -1 then (False, table)
      else case Add_loop table 0 of
        None \<Rightarrow> (False, table)
      | Some i \<Rightarrow>
          (True, table[i := (table ! i)\<lparr>inUse := True,
                   name := strncpy nm (FileNameMaxLen E),
                   sector := newSector, dFlag := flag\<rparr>]))"

text \<open>\<^verbatim>\<open>Directory::Remove\<close>: the entry is marked free, its bytes stay.\<close>

definition Directory_Remove :: "env \<Rightarrow> Directory \<Rightarrow> string \<Rightarrow> bool \<times> Directory" where
  "Directory_Remove E table nm =
     (let i = FindIndex E table nm in
      if i = -1 then (False, table)
      else (True, table[nat i := (table ! nat i)\<lparr>inUse := False\<rparr>]))"

text \<open>\<^verbatim>\<open>Directory::List\<close>: what it prints, one line per entry in use, in table order.\<close>

definition Directory_List :: "Directory \<Rightarrow> string list" where
  "Directory_List table = map name (filter inUse table)"

subsection \<open>Undefined behaviour of the C++ as error values\<close>

datatype error =
  NullPointer       \<comment> \<open>\<^verbatim>\<open>strtok\<close> returned NULL and the result is passed to \<^verbatim>\<open>sprintf\<close> and \<^verbatim>\<open>strlen\<close>\<close>
  | BufferOverflow  \<comment> \<open>\<^verbatim>\<open>strcpy\<close> or \<^verbatim>\<open>sprintf\<close> writes past a local array\<close>
  | OutOfBounds     \<comment> \<open>a \<^verbatim>\<open>char *\<close> moved past the terminating NUL is read\<close>
  | Uninitialized   \<comment> \<open>a local variable is read before any assignment\<close>
  | DoubleDelete    \<comment> \<open>\<^verbatim>\<open>delete\<close> of an object that is already deleted\<close>

text \<open>
  The successive results of \<^verbatim>\<open>strtok(temp, "/")\<close>, \<^verbatim>\<open>strtok(NULL, "/")\<close>, ...: the
  maximal non-empty runs of characters other than \<open>/\<close>. \<open>cur\<close> is the run being read.
\<close>

fun strtok_acc :: "string \<Rightarrow> string \<Rightarrow> string list" where
  "strtok_acc [] cur = (if cur = [] then [] else [cur])"
| "strtok_acc (c # cs) cur =
     (if c = CHR ''/'' then (if cur = [] then strtok_acc cs [] else cur # strtok_acc cs [])
      else strtok_acc cs (cur @ [c]))"

definition strtok :: "string \<Rightarrow> string list" where
  "strtok s = strtok_acc s []"

text \<open>
  The path splitting that \<^verbatim>\<open>FileSystem::Create\<close> and \<^verbatim>\<open>FileSystem::Remove\<close> both start
  with (lines 198-219 and 368-389): \<^verbatim>\<open>fileName\<close> is \<open>/\<close> followed by the last token, and
  \<^verbatim>\<open>directory\<close> is the first \<^verbatim>\<open>length\<close> characters of the path, where \<^verbatim>\<open>length\<close> adds
  \<^verbatim>\<open>strlen(cut) + 1\<close> for every token but the first, and is 1 when that sum is 0.
  \<^verbatim>\<open>temp\<close> has 256 bytes and \<^verbatim>\<open>fileName\<close> has 10.
\<close>

definition split_path :: "string \<Rightarrow> error + string \<times> string" where
  "split_path nm =
     (if 256 \<le> length nm then Inl BufferOverflow
      else case strtok nm of
        [] \<Rightarrow> Inl NullPointer
      | tok # toks \<Rightarrow>
          if list_ex (\<lambda>c. 10 < length c + 2) (tok # toks) then Inl BufferOverflow
          else
            let fileName = CHR ''/'' # last (tok # toks);
                len = sum_list (map (\<lambda>c. length c + 1) toks);
                len1 = (if len = 0 then 1 else len)
            in Inr (take len1 nm, fileName))"

subsection \<open>The disk, as the file system sees it\<close>

text \<open>
  Modelled from the spec: \<^verbatim>\<open>OpenFile\<close>, \<^verbatim>\<open>FileHeader::FetchFrom/WriteBack\<close> and
  \<^verbatim>\<open>PersistentBitmap\<close> are not part of the source. The spec gives the contracts
  "persist/load a header by sector number", "persist/load the whole bitmap" and "writes the
  table back to byte offset 0 of the given backing handle". An \<^verbatim>\<open>OpenFile\<close> is the sector of
  its header; the disk holds, per header sector, the header stored there and the contents
  of the file it describes read as a directory table, and the contents of the bitmap file,
  the set of the sectors marked in use.
\<close>

record disk =
  hdrs :: "int \<Rightarrow> FileHeader"
  dirData :: "int \<Rightarrow> Directory"
  freeMapData :: "int set"

text \<open>
  \<^verbatim>\<open>Directory::FetchFrom(file)\<close> reads \<^verbatim>\<open>tableSize\<close> entries from offset 0 into the table;
  entries beyond the end of the file keep what the table held.
\<close>

definition Directory_FetchFrom :: "Directory \<Rightarrow> int \<Rightarrow> disk \<Rightarrow> Directory" where
  "Directory_FetchFrom table file d =
     take (length table) (dirData d file) @ drop (length (dirData d file)) table"

text \<open>
  \<^verbatim>\<open>Directory::WriteBack(file)\<close> writes the table at offset 0 of the file; the table is
  what a later load of the file reads.
\<close>

definition Directory_WriteBack :: "Directory \<Rightarrow> int \<Rightarrow> disk \<Rightarrow> disk" where
  "Directory_WriteBack table file d = d\<lparr>dirData := (dirData d)(file := table)\<rparr>"

text \<open>
  Modelled from the spec: \<^verbatim>\<open>FileHeader::FetchFrom(sector)\<close>, "load a header by sector
  number", is not part of the source.
\<close>

definition FileHeader_FetchFrom :: "int \<Rightarrow> disk \<Rightarrow> FileHeader" where
  "FileHeader_FetchFrom sec d = hdrs d sec"

text \<open>
  Modelled from the spec: \<^verbatim>\<open>FileHeader::WriteBack(sector)\<close>, "persist a header by sector
  number", is not part of the source.
\<close>

definition FileHeader_WriteBack :: "FileHeader \<Rightarrow> int \<Rightarrow> disk \<Rightarrow> disk" where
  "FileHeader_WriteBack hdr sec d = d\<lparr>hdrs := (hdrs d)(sec := hdr)\<rparr>"

text \<open>
  Modelled from the spec: the bitmap is the "logical set of sector numbers in use", with
  "find-and-mark an unused sector", "clear a sector" and "persist/load the whole bitmap".
  \<open>FindAndSet\<close> takes the lowest free sector and returns \<open>-1\<close> when there is none.
\<close>

definition PersistentBitmap :: "disk \<Rightarrow> int set" where
  "PersistentBitmap d = freeMapData d"

text \<open>
  Modelled from the spec: \<^verbatim>\<open>PersistentBitmap::WriteBack(file)\<close>, "persist the whole bitmap",
  is not part of the source.
\<close>

definition Bitmap_WriteBack :: "int set \<Rightarrow> disk \<Rightarrow> disk" where
  "Bitmap_WriteBack freeMap d = d\<lparr>freeMapData := freeMap\<rparr>"

text \<open>
  Modelled from the spec: \<^verbatim>\<open>Bitmap::FindAndSet()\<close>, "find-and-mark an unused sector", is
  not part of the source.
\<close>

definition FindAndSet :: "env \<Rightarrow> int set \<Rightarrow> int \<times> int set" where
  "FindAndSet E freeMap =
     (case find (\<lambda>s. s \<notin> freeMap) (map int [0..<NumSectors E]) of
        None \<Rightarrow> (-1, freeMap)
      | Some s \<Rightarrow> (s, insert s freeMap))"

text \<open>
  Modelled from the spec: \<^verbatim>\<open>Bitmap::Clear(sector)\<close>, "clear a sector", is not part of the
  source.
\<close>

definition Clear :: "int \<Rightarrow> int set \<Rightarrow> int set" where
  "Clear s freeMap = freeMap - {s}"

subsection \<open>Path resolution (Directory::FindFormRoot)\<close>

text \<open>
  \<^verbatim>\<open>temp\<close> has 256 bytes and \<^verbatim>\<open>buf\<close> has \<^verbatim>\<open>FileNameMaxLen + 1\<close>. The pointer
  \<^verbatim>\<open>name + strlen(cut) + 1\<close> is read only at an entry that matches \<^verbatim>\<open>buf\<close>; it is past the
  end of the string when the path is the token itself. Without a matching entry the
  result is \<open>-1\<close>. The loop returns at the first entry in use whose name matches \<^verbatim>\<open>buf\<close>,
  whatever its \<^verbatim>\<open>dFlag\<close>.
\<close>

function FindFormRoot :: "env \<Rightarrow> disk \<Rightarrow> Directory \<Rightarrow> string \<Rightarrow> error + int" where
  "FindFormRoot E d table nm =
     (if nm = ''/'' then Inr 1
      else if 256 \<le> length nm then Inl BufferOverflow
      else case strtok nm of
        [] \<Rightarrow> Inl NullPointer
      | tok # _ \<Rightarrow>
          if FileNameMaxLen E + 1 < length tok + 2 then Inl BufferOverflow
          else
            let buf = CHR ''/'' # tok in
            (case find (\<lambda>e. inUse e \<and> strncmp0 (name e) buf (FileNameMaxLen E)) table of
               None \<Rightarrow> Inr (-1)
             | Some e \<Rightarrow>
                 if length nm < length tok + 1 then Inl OutOfBounds
                 else
                   let rest = drop (length tok + 1) nm in
                   if rest = [] then Inr (sector e)
                   else FindFormRoot E d
                          (Directory_FetchFrom (newDirectory 64) (sector e) d) rest))"
  by pat_completeness auto
termination
  by (relation "measure (\<lambda>(E, d, table, nm). length nm)") auto

declare FindFormRoot.simps [simp del]

subsection \<open>FileSystem::Create\<close>

text \<open>
  The block "initial new directory" (lines 254-261) stands after the \<^verbatim>\<open>if\<close> on the
  duplicate name, outside the branch that sets \<^verbatim>\<open>success = TRUE\<close>: it runs whenever the
  parent directory was found and \<^verbatim>\<open>directoryFlag\<close> is set.
\<close>

definition Create_newDirectory :: "bool \<Rightarrow> bool \<Rightarrow> int \<Rightarrow> disk \<Rightarrow> error + bool \<times> disk" where
  "Create_newDirectory directoryFlag success sec d =
     Inr (success,
          if directoryFlag then Directory_WriteBack (newDirectory NumDirEntries) sec d else d)"

text \<open>
  When the name is already in the parent directory, \<^verbatim>\<open>sector\<close> has not been assigned; the
  block above then reads it if \<^verbatim>\<open>directoryFlag\<close> is set.
\<close>

definition Create :: "env \<Rightarrow> disk \<Rightarrow> string \<Rightarrow> int \<Rightarrow> bool \<Rightarrow> error + bool \<times> disk" where
  "Create E d nm initialSize directoryFlag =
     (let root = Directory_FetchFrom (newDirectory NumDirEntries) DirectorySector d in
      case split_path nm of
        Inl err \<Rightarrow> Inl err
      | Inr (directory, fileName) \<Rightarrow>
          (case FindFormRoot E d root directory of
             Inl err \<Rightarrow> Inl err
           | Inr nowDirectorySector \<Rightarrow>
               if 0 \<le> nowDirectorySector then
                 let nowDirectory =
                       Directory_FetchFrom (newDirectory NumDirEntries) nowDirectorySector d in
                 if Find E nowDirectory fileName \<noteq> -1 then
                   (if directoryFlag then Inl Uninitialized else Inr (False, d))
                 else
                   let (sec, freeMap) = FindAndSet E (PersistentBitmap d) in
                   if sec = -1 then Create_newDirectory directoryFlag False sec d
                   else
                     (case Add E nowDirectory fileName sec directoryFlag of
                        (False, _) \<Rightarrow> Create_newDirectory directoryFlag False sec d
                      | (True, nowDirectory1) \<Rightarrow>
                          let initialSize1 =
                                (if directoryFlag then DirectoryFileSize E else initialSize) in
                          (case Allocate E freeMap initialSize1 of
                             None \<Rightarrow> Create_newDirectory directoryFlag False sec d
                           | Some (hdr, freeMap1) \<Rightarrow>
                               Create_newDirectory directoryFlag True sec
                                 (Bitmap_WriteBack freeMap1
                                   (Directory_WriteBack nowDirectory1 nowDirectorySector
                                     (FileHeader_WriteBack hdr sec d)))))
               else Inr (False, d)))"

subsection \<open>The descriptor table (FileSystem::Openfile, FileSystem::Close)\<close>

text \<open>
  A slot of \<^verbatim>\<open>openFileTable\<close> holds an \<^verbatim>\<open>OpenFile *\<close>: NULL, a pointer to a live
  \<^verbatim>\<open>OpenFile\<close> (given by the sector it was opened on), or a pointer whose object has been
  deleted. The table is the only holder of the pointers \<^verbatim>\<open>Openfile\<close> creates, so
  \<^verbatim>\<open>delete openFileTable[id]\<close> turns the pointer of that slot, which the source does not
  assign, into a dangling one. The array is indexed 0 to 19.
\<close>

datatype ptr = NULL | Object int | Dangling

text \<open>
  The loop \<^verbatim>\<open>for(i=1;i<20;i++)\<close> over the indices still to visit: the values of \<^verbatim>\<open>i\<close> and
  \<^verbatim>\<open>id\<close> and the table when it ends.
\<close>

fun Openfile_loop :: "int \<Rightarrow> (nat \<Rightarrow> ptr) \<Rightarrow> nat list \<Rightarrow> int \<times> int \<times> (nat \<Rightarrow> ptr)" where
  "Openfile_loop sec tbl [] = (20, -1, tbl)"
| "Openfile_loop sec tbl (i # is) =
     (if tbl i = NULL then (int i, int i, tbl(i := Object sec))
      else Openfile_loop sec tbl is)"

text \<open>
  When the path is not found the loop does not run, \<^verbatim>\<open>id\<close> keeps \<open>-1\<close> and \<^verbatim>\<open>i\<close>, which
  has no value then, is not read.
\<close>

definition Openfile ::
  "env \<Rightarrow> disk \<Rightarrow> (nat \<Rightarrow> ptr) \<Rightarrow> string \<Rightarrow> error + int \<times> (nat \<Rightarrow> ptr)" where
  "Openfile E d tbl nm =
     (let directory = Directory_FetchFrom (newDirectory NumDirEntries) DirectorySector d in
      case FindFormRoot E d directory nm of
        Inl err \<Rightarrow> Inl err
      | Inr sec \<Rightarrow>
          let (i, ident, tbl1) =
                (if 0 \<le> sec then Openfile_loop sec tbl [1..<20] else (-1, -1, tbl)) in
          if 1 \<le> ident \<and> ident < 20 \<and> tbl1 (nat ident) \<noteq> NULL then Inr (i, tbl1)
          else Inr (-1, tbl1))"

definition Close :: "(nat \<Rightarrow> ptr) \<Rightarrow> int \<Rightarrow> error + int \<times> (nat \<Rightarrow> ptr)" where
  "Close tbl ident =
     (if 1 \<le> ident \<and> ident < 20 \<and> tbl (nat ident) \<noteq> NULL then
        (case tbl (nat ident) of
           Dangling \<Rightarrow> Inl DoubleDelete
         | _ \<Rightarrow> Inr (1, tbl(nat ident := Dangling)))
      else Inr (-1, tbl))"

subsection \<open>FileSystem::Remove\<close>

text \<open>
  The loop of lines 430-434: \<open>h\<close> is \<^verbatim>\<open>traceFileHeader\<close>, \<open>s\<close> is
  \<^verbatim>\<open>traceFileHeaderSector\<close>.
\<close>

fun clear_chain :: "FileHeader option \<Rightarrow> int \<Rightarrow> int set \<Rightarrow> int set" where
  "clear_chain None s freeMap = freeMap"
| "clear_chain (Some (FileHeader blocks nextSector nextHeader)) s freeMap =
     clear_chain nextHeader nextSector (Clear s freeMap)"

text \<open>Lines 424-434: the bitmap after the data blocks and the header chain are freed.\<close>

definition Remove_deallocate :: "env \<Rightarrow> disk \<Rightarrow> int \<Rightarrow> int set" where
  "Remove_deallocate E d sec =
     (let fileHdr = FileHeader_FetchFrom sec d;
          freeMap = Deallocate E fileHdr (PersistentBitmap d)
      in clear_chain (Some fileHdr) sec freeMap)"

text \<open>
  What a call may come to: \<open>None\<close> when the recursion is cut off by the bound on its depth,
  otherwise an error or a value. \<open>andThen\<close> runs the next step on a value.
\<close>

type_synonym 'a outcome = "(error + 'a) option"

definition andThen :: "'a outcome \<Rightarrow> ('a \<Rightarrow> 'b outcome) \<Rightarrow> 'b outcome" where
  "andThen m f = (case m of None \<Rightarrow> None | Some (Inl err) \<Rightarrow> Some (Inl err) | Some (Inr x) \<Rightarrow> f x)"

text \<open>
  The loop of lines 411-418 over the entries of \<^verbatim>\<open>traceDirectory\<close>
  (\<^verbatim>\<open>IsUse(i)\<close> and \<^verbatim>\<open>GetName(i)\<close> read the fields of entry \<open>i\<close>): \<open>rm\<close> is the recursive
  call, whose boolean result is dropped. \<^verbatim>\<open>temp\<close> has 256 bytes.
\<close>

fun Remove_loop ::
  "(disk \<Rightarrow> string \<Rightarrow> (bool \<times> disk) outcome) \<Rightarrow> string \<Rightarrow> Directory \<Rightarrow> disk \<Rightarrow> disk outcome" where
  "Remove_loop rm nm [] d = Some (Inr d)"
| "Remove_loop rm nm (e # es) d =
     (if inUse e then
        (if 256 \<le> length nm + length (name e) then Some (Inl BufferOverflow)
         else andThen (rm d (nm @ name e)) (\<lambda>(_, d1). Remove_loop rm nm es d1))
      else Remove_loop rm nm es d)"

text \<open>
  Lines 407-422: the sub-directory is loaded once, before the loop, and that table is
  written back after it.
\<close>

definition Remove_subdirectory ::
  "(disk \<Rightarrow> string \<Rightarrow> (bool \<times> disk) outcome) \<Rightarrow> string \<Rightarrow> int \<Rightarrow> disk \<Rightarrow> disk outcome" where
  "Remove_subdirectory rm nm sec d =
     (let traceDirectory = Directory_FetchFrom (newDirectory NumDirEntries) sec d in
      andThen (Remove_loop rm nm traceDirectory d)
        (\<lambda>d1. Some (Inr (Directory_WriteBack traceDirectory sec d1))))"

text \<open>Lines 424-444: deallocation, the entry leaves the parent table, both are written.\<close>

definition Remove_commit :: "env \<Rightarrow> int \<Rightarrow> Directory \<Rightarrow> string \<Rightarrow> int \<Rightarrow> disk \<Rightarrow> disk" where
  "Remove_commit E nowDirectorySector nowDirectory fileName sec d =
     (let freeMap = Remove_deallocate E d sec;
          nowDirectory1 = snd (Directory_Remove E nowDirectory fileName)
      in Directory_WriteBack nowDirectory1 nowDirectorySector (Bitmap_WriteBack freeMap d))"

text \<open>
  Lines 365-406: the target of the call. \<open>Inr None\<close> is a \<^verbatim>\<open>return FALSE\<close>; otherwise the
  sector of the parent directory, its table, \<^verbatim>\<open>fileName\<close>, the sector of the entry and
  \<^verbatim>\<open>dFlag\<close>.
\<close>

definition Remove_target ::
  "env \<Rightarrow> disk \<Rightarrow> string \<Rightarrow> bool \<Rightarrow> error + (int \<times> Directory \<times> string \<times> int \<times> bool) option" where
  "Remove_target E d nm recursiveRemoveFlag =
     (let root = Directory_FetchFrom (newDirectory NumDirEntries) DirectorySector d in
      case split_path nm of
        Inl err \<Rightarrow> Inl err
      | Inr (directory, fileName) \<Rightarrow>
          (case FindFormRoot E d root directory of
             Inl err \<Rightarrow> Inl err
           | Inr nowDirectorySector \<Rightarrow>
               if nowDirectorySector = -1 then Inr None
               else
                 let nowDirectory =
                       Directory_FetchFrom (newDirectory NumDirEntries) nowDirectorySector d;
                     sec = Find E nowDirectory fileName;
                     dflag = GetFlag E nowDirectory fileName
                 in if sec = -1 \<or> (dflag \<and> \<not> recursiveRemoveFlag) then Inr None
                    else Inr (Some (nowDirectorySector, nowDirectory, fileName, sec, dflag))))"

text \<open>
  \<^verbatim>\<open>FileSystem::Remove\<close> calls itself for the entries of a sub-directory, on a path that
  an entry with an empty name leaves as it is; the first argument bounds the depth of the
  calls.
\<close>

fun Remove :: "nat \<Rightarrow> env \<Rightarrow> disk \<Rightarrow> string \<Rightarrow> bool \<Rightarrow> (bool \<times> disk) outcome" where
  "Remove 0 E d nm recursiveRemoveFlag = None"
| "Remove (Suc k) E d nm recursiveRemoveFlag =
     (case Remove_target E d nm recursiveRemoveFlag of
        Inl err \<Rightarrow> Some (Inl err)
      | Inr None \<Rightarrow> Some (Inr (False, d))
      | Inr (Some (nowDirectorySector, nowDirectory, fileName, sec, dflag)) \<Rightarrow>
          andThen
            (if dflag \<and> recursiveRemoveFlag then
               Remove_subdirectory (\<lambda>d1 p. Remove k E d1 p recursiveRemoveFlag) nm sec d
             else Some (Inr d))
            (\<lambda>d2. Some (Inr (True,
               Remove_commit E nowDirectorySector nowDirectory fileName sec d2))))"

declare Remove.simps [simp del]

subsection \<open>FileSystem::List\<close>

text \<open>
  \<^verbatim>\<open>Directory::ListAll(head)\<close>: the lines printed. The loop over the entries, with \<open>la\<close>
  the recursive call on the sub-directory of an entry; \<^verbatim>\<open>temp\<close> has 256 bytes.
\<close>

fun ListAll_loop ::
  "(Directory \<Rightarrow> string \<Rightarrow> string list outcome) \<Rightarrow> disk \<Rightarrow> Directory \<Rightarrow> string \<Rightarrow>
   string list outcome" where
  "ListAll_loop la d [] head = Some (Inr [])"
| "ListAll_loop la d (e # es) head =
     (if inUse e then
        andThen
          (if dFlag e then
             (if 256 \<le> length head + length (name e) then Some (Inl BufferOverflow)
              else la (Directory_FetchFrom (newDirectory 64) (sector e) d) (head @ name e))
           else Some (Inr []))
          (\<lambda>below. andThen (ListAll_loop la d es head)
             (\<lambda>after. Some (Inr ((head @ name e) # below @ after))))
      else ListAll_loop la d es head)"

fun ListAll :: "nat \<Rightarrow> disk \<Rightarrow> Directory \<Rightarrow> string \<Rightarrow> string list outcome" where
  "ListAll 0 d table head = None"
| "ListAll (Suc k) d table head = ListAll_loop (\<lambda>t h. ListAll k d t h) d table head"

declare ListAll.simps [simp del]

text \<open>
  \<^verbatim>\<open>FileSystem::List\<close> (lines 452-470): the result of \<^verbatim>\<open>FindFormRoot\<close> goes to
  \<^verbatim>\<open>new OpenFile(sector)\<close> with no test.
\<close>

definition FileSystem_List :: "nat \<Rightarrow> env \<Rightarrow> disk \<Rightarrow> string \<Rightarrow> bool \<Rightarrow> string list outcome" where
  "FileSystem_List k E d nm recursiveListFlag =
     (let root = Directory_FetchFrom (newDirectory NumDirEntries) DirectorySector d in
      case FindFormRoot E d root nm of
        Inl err \<Rightarrow> Some (Inl err)
      | Inr sec \<Rightarrow>
          let directory = Directory_FetchFrom (newDirectory NumDirEntries) sec d in
          if recursiveListFlag then ListAll k d directory []
          else Some (Inr (Directory_List directory)))"

subsection \<open>Sequences of Create and Remove\<close>

datatype operation = OpCreate string int bool | OpRemove string bool

text \<open>
  The disk after a sequence of calls, whatever each call returns; \<open>k\<close> bounds the depth of
  the calls of every \<^verbatim>\<open>Remove\<close>.
\<close>

fun run :: "nat \<Rightarrow> env \<Rightarrow> operation list \<Rightarrow> disk \<Rightarrow> disk outcome" where
  "run k E [] d = Some (Inr d)"
| "run k E (OpCreate nm initialSize directoryFlag # ops) d =
     andThen (Some (Create E d nm initialSize directoryFlag)) (\<lambda>(_, d1). run k E ops d1)"
| "run k E (OpRemove nm recursiveRemoveFlag # ops) d =
     andThen (Remove k E d nm recursiveRemoveFlag) (\<lambda>(_, d1). run k E ops d1)"

text \<open>
  No two entries in use of a table have the same name; the stronger property that the
  code maintains, on the first \<open>FileNameMaxLen\<close> characters of the names, which is what
  \<^verbatim>\<open>strncmp\<close> compares; and that property of every table stored on the disk.
\<close>

definition unique_names :: "Directory \<Rightarrow> bool" where
  "unique_names table =
     (\<forall>i < length table. \<forall>j < length table.
        i \<noteq> j \<and> inUse (table ! i) \<and> inUse (table ! j) \<longrightarrow> name (table ! i) \<noteq> name (table ! j))"

definition unique_prefixes :: "env \<Rightarrow> Directory \<Rightarrow> bool" where
  "unique_prefixes E table =
     (\<forall>i < length table. \<forall>j < length table.
        i \<noteq> j \<and> inUse (table ! i) \<and> inUse (table ! j) \<longrightarrow>
        take (FileNameMaxLen E) (name (table ! i)) \<noteq> take (FileNameMaxLen E) (name (table ! j)))"

definition disk_unique :: "env \<Rightarrow> disk \<Rightarrow> bool" where
  "disk_unique E d = (\<forall>s. unique_prefixes E (dirData d s))"

text \<open>
  The sectors of the headers of a chain: the sector \<open>s\<close> of the first header, then the
  sector each header names for the header that follows it.
\<close>

fun chain_sectors :: "FileHeader option \<Rightarrow> int \<Rightarrow> int list" where
  "chain_sectors None s = []"
| "chain_sectors (Some (FileHeader blocks nextSector nextHeader)) s =
     s # chain_sectors nextHeader nextSector"

subsection \<open>Concrete collaborators, tables and disks for the examples\<close>

text \<open>
  An allocator that takes the lowest free sectors of a disk of 16 sectors of 128 bytes and
  builds a single header, and the deallocation that frees the data sectors of the headers
  of a chain.
\<close>

definition Allocate0 :: "int set \<Rightarrow> int \<Rightarrow> (FileHeader \<times> int set) option" where
  "Allocate0 freeMap sz =
     (let n = nat ((sz + 127) div 128);
          free = filter (\<lambda>s. s \<notin> freeMap) (map int [0..<16]) in
      if length free < n then None
      else Some (FileHeader (take n free) (-1) None, freeMap \<union> set (take n free)))"

fun chain_dataSectors :: "FileHeader option \<Rightarrow> int list" where
  "chain_dataSectors None = []"
| "chain_dataSectors (Some (FileHeader blocks nextSector nextHeader)) =
     blocks @ chain_dataSectors nextHeader"

definition Deallocate0 :: "FileHeader \<Rightarrow> int set \<Rightarrow> int set" where
  "Deallocate0 h freeMap = freeMap - set (chain_dataSectors (Some h))"

definition env0 :: env where
  "env0 = \<lparr>FileNameMaxLen = 9, NumSectors = 16, sizeofDirectoryEntry = 4,
            Allocate = Allocate0, Deallocate = Deallocate0\<rparr>"

definition entry :: "string \<Rightarrow> int \<Rightarrow> bool \<Rightarrow> DirectoryEntry" where
  "entry nm s f = \<lparr>inUse = True, sector = s, name = nm, dFlag = f\<rparr>"

text \<open>A formatted disk: the bitmap and the root directory take sectors 0 to 3, no file yet.\<close>

definition disk0 :: disk where
  "disk0 = \<lparr>hdrs = (\<lambda>s. FileHeader [] (-1) None), dirData = (\<lambda>s. []),
             freeMapData = {0, 1, 2, 3}\<rparr>"

text \<open>
  Descriptor tables: no descriptor open, and the nineteen slots 1 to 19 all taken by
  descriptors opened on the root directory.
\<close>

definition noHandles :: "nat \<Rightarrow> ptr" where
  "noHandles = (\<lambda>i. NULL)"

definition allHandles :: "nat \<Rightarrow> ptr" where
  "allHandles = (\<lambda>i. if 1 \<le> i \<and> i < 20 then Object 1 else NULL)"

text \<open>Two tables that differ in the \<open>dFlag\<close> of their entries at most.\<close>

definition same_but_dFlag :: "Directory \<Rightarrow> Directory \<Rightarrow> bool" where
  "same_but_dFlag t1 t2 =
     list_all2 (\<lambda>a b. inUse a = inUse b \<and> sector a = sector b \<and> name a = name b) t1 t2"

text \<open>
  A disk whose root directory holds the plain file \<open>/f\<close> (header in sector 5), the contents
  of that file being the bytes of a directory table with an entry \<open>/x\<close> for sector 9; the
  same disk with \<open>/f\<close> marked as a sub-directory; and a disk on which reading through
  \<^verbatim>\<open>OpenFile(-1)\<close> gives the bytes of a table with an entry \<open>/ghost\<close>.
\<close>

definition diskF :: disk where
  "diskF = disk0\<lparr>dirData := (\<lambda>s. if s = 1 then [entry ''/f'' 5 False]
                                  else if s = 5 then [entry ''/x'' 9 False] else [])\<rparr>"

definition diskD :: disk where
  "diskD = disk0\<lparr>dirData := (\<lambda>s. if s = 1 then [entry ''/f'' 5 True]
                                  else if s = 5 then [entry ''/x'' 9 False] else [])\<rparr>"

text \<open>
  A disk with one file \<open>/x\<close> in the root directory: its header is in sector 4 and chains
  to a second header in sector 5; the data blocks are the sectors 6 and 7.
\<close>

definition diskC :: disk where
  "diskC = \<lparr>hdrs = (\<lambda>s. if s = 4 then FileHeader [6] 5 (Some (FileHeader [7] (-1) None))
                         else FileHeader [] (-1) None),
             dirData = (\<lambda>s. if s = 1 then [entry ''/x'' 4 False] else []),
             freeMapData = {0, 1, 2, 3, 4, 5, 6, 7}\<rparr>"

definition diskG :: disk where
  "diskG = disk0\<lparr>dirData := (\<lambda>s. if s = -1 then [entry ''/ghost'' 7 False] else [])\<rparr>"

text \<open>
  A directory \<open>/d\<close> is created, a file \<open>/d/x\<close> in it, a second \<open>/d/x\<close> is refused, a
  path \<open>a\<close> without a slash is refused, a file \<open>/y\<close> is created, the removal of a path
  \<open>nothere\<close> is refused and \<open>/d\<close> is removed with its contents.
\<close>

definition ops0 :: "operation list" where
  "ops0 = [OpCreate ''/d'' 0 True, OpCreate ''/d/x'' 100 False, OpCreate ''/d/x'' 5 False,
           OpCreate ''a'' 0 False, OpCreate ''/y'' 10 False, OpRemove ''nothere'' False,
           OpRemove ''/d'' True]"

text \<open>
  A disk with one free sector left, sector 9: the file \<open>/big\<close> of the root directory has
  its header in sector 4 and its data in the other sectors. Sector 9 was the header of a
  directory that has been removed, and what \<^verbatim>\<open>OpenFile(9)\<close> reads is still its table.
\<close>

definition diskN :: disk where
  "diskN = \<lparr>hdrs = (\<lambda>s. if s = 4 then FileHeader [5, 6, 7, 8, 10, 11, 12, 13, 14, 15] (-1) None
                         else FileHeader [] (-1) None),
             dirData = (\<lambda>s. if s = 1 then [entry ''/big'' 4 False]
                             else if s = 9 then [entry ''/old'' 3 False] else []),
             freeMapData = {0, 1, 2, 3, 4, 5, 6, 7, 8, 10, 11, 12, 13, 14, 15}\<rparr>"

text \<open>
  A disk with the directory \<open>/d\<close> (header in sector 4, table in sectors 5 and 6) that holds
  the file \<open>/d/x\<close> (header in sector 7, data in sector 8).
\<close>

definition diskR :: disk where
  "diskR = \<lparr>hdrs = (\<lambda>s. if s = 4 then FileHeader [5, 6] (-1) None
                         else if s = 7 then FileHeader [8] (-1) None
                         else FileHeader [] (-1) None),
             dirData = (\<lambda>s. if s = 1 then [entry ''/d'' 4 True]
                             else if s = 4 then [entry ''/x'' 7 False] else []),
             freeMapData = {0, 1, 2, 3, 4, 5, 6, 7, 8}\<rparr>"

text \<open>
  The same disk with a second entry \<open>/xy\<close> in \<open>/d\<close>, for a file with its header in sector 9.
\<close>

definition diskR2 :: disk where
  "diskR2 = diskR\<lparr>dirData := (\<lambda>s. if s = 1 then [entry ''/d'' 4 True]
                                   else if s = 4 then [entry ''/xy'' 9 False, entry ''/x'' 7 False]
                                   else []),
                   freeMapData := {0, 1, 2, 3, 4, 5, 6, 7, 8, 9}\<rparr>"

text \<open>Every entry in use of every table of the disk has a name that is not empty.\<close>

definition nonempty_names :: "disk \<Rightarrow> bool" where
  "nonempty_names d = (\<forall>s. \<forall>e\<in>set (dirData d s). inUse e \<longrightarrow> name e \<noteq> [])"

section \<open>Properties\<close>

subsection \<open>The directory table\<close>

lemma FindIndex_loop_none:
  "(FindIndex_loop E table nm i = -1) =
   (\<not> (\<exists>e\<in>set table. inUse e \<and> strncmp0 (name e) nm (FileNameMaxLen E)))"
  by (induction table arbitrary: i) auto

lemma FindIndex_loop_some:
  "FindIndex_loop E table nm i \<noteq> -1 \<Longrightarrow>
   (\<exists>j < length table. FindIndex_loop E table nm i = int (i + j) \<and> inUse (table ! j) \<and>
      strncmp0 (name (table ! j)) nm (FileNameMaxLen E) \<and>
      (\<forall>k < j. \<not> (inUse (table ! k) \<and> strncmp0 (name (table ! k)) nm (FileNameMaxLen E))))"
proof (induction table arbitrary: i)
  case Nil
  then show ?case by simp
next
  case (Cons e es)
  show ?case
  proof (cases "inUse e \<and> strncmp0 (name e) nm (FileNameMaxLen E)")
    case True
    then show ?thesis by (intro exI[of _ 0]) simp
  next
    case False
    with Cons.prems have "FindIndex_loop E es nm (Suc i) \<noteq> -1" by auto
    from Cons.IH[OF this] obtain j where j: "j < length es"
      "FindIndex_loop E es nm (Suc i) = int (Suc i + j)" "inUse (es ! j)"
      "strncmp0 (name (es ! j)) nm (FileNameMaxLen E)"
      "\<forall>k < j. \<not> (inUse (es ! k) \<and> strncmp0 (name (es ! k)) nm (FileNameMaxLen E))"
      by blast
    have "\<forall>k < Suc j. \<not> (inUse ((e # es) ! k) \<and> strncmp0 (name ((e # es) ! k)) nm (FileNameMaxLen E))"
      using False j(5) by (auto simp: less_Suc_eq_0_disj)
    with False j show ?thesis by (intro exI[of _ "Suc j"]) auto
  qed
qed

lemma FindIndex_none:
  "(FindIndex E table nm = -1) =
   (\<not> (\<exists>e\<in>set table. inUse e \<and> take (FileNameMaxLen E) (name e) = take (FileNameMaxLen E) nm))"
  by (simp add: FindIndex_def FindIndex_loop_none strncmp0_def)

lemma FindIndex_some:
  assumes "FindIndex E table nm \<noteq> -1"
  shows "\<exists>j < length table. FindIndex E table nm = int j \<and> inUse (table ! j) \<and>
      take (FileNameMaxLen E) (name (table ! j)) = take (FileNameMaxLen E) nm \<and>
      (\<forall>k < j. \<not> (inUse (table ! k) \<and>
         take (FileNameMaxLen E) (name (table ! k)) = take (FileNameMaxLen E) nm))"
  using FindIndex_loop_some[of E table nm 0] assms by (simp add: FindIndex_def strncmp0_def)

lemma Add_loop_none: "(Add_loop table i = None) = (\<forall>e\<in>set table. inUse e)"
  by (induction table arbitrary: i) auto

lemma Add_loop_some:
  "Add_loop table i = Some r \<Longrightarrow>
   \<exists>j < length table. r = i + j \<and> \<not> inUse (table ! j) \<and> (\<forall>k < j. inUse (table ! k))"
proof (induction table arbitrary: i)
  case Nil
  then show ?case by simp
next
  case (Cons e es)
  show ?case
  proof (cases "inUse e")
    case False
    with Cons.prems show ?thesis by (intro exI[of _ 0]) simp
  next
    case True
    with Cons.prems have "Add_loop es (Suc i) = Some r" by simp
    from Cons.IH[OF this] obtain j where j: "j < length es" "r = Suc i + j" "\<not> inUse (es ! j)"
      "\<forall>k < j. inUse (es ! k)" by blast
    have "\<forall>k < Suc j. inUse ((e # es) ! k)"
      using True j(4) by (auto simp: less_Suc_eq_0_disj)
    with j show ?thesis by (intro exI[of _ "Suc j"]) auto
  qed
qed

lemma Add_loop_Least:
  assumes "Add_loop table 0 = Some r"
  shows "r = (LEAST i. i < length table \<and> \<not> inUse (table ! i))" "r < length table"
proof -
  from Add_loop_some[OF assms] have r: "r < length table" "\<not> inUse (table ! r)"
    "\<forall>k < r. inUse (table ! k)" by auto
  show "r = (LEAST i. i < length table \<and> \<not> inUse (table ! i))"
    by (rule sym, rule Least_equality) (use r in \<open>auto simp: not_less[symmetric]\<close>)
  show "r < length table" by (rule r(1))
qed

lemma entry_update_all:
  "(e::DirectoryEntry)\<lparr>inUse := a, name := b, sector := c, dFlag := f\<rparr> =
   \<lparr>inUse = a, sector = c, name = b, dFlag = f\<rparr>"
  by (cases e) simp

text \<open>
  Claim C8. \<^verbatim>\<open>Add(name, sector, isSubdirectory)\<close> fails exactly when the name is already
  present among the entries in use (names compared on their first \<open>FileNameMaxLen\<close>
  characters) or when no entry is free, and then leaves the table as it is; otherwise it
  claims the first free slot, the one of lowest index, and stores there the name (its first
  \<open>FileNameMaxLen\<close> characters, which is the whole name when it fits the entry), the sector
  and the flag. \<open>Add\<close> is a function of the table alone: it reads and writes no disk.
\<close>

theorem Add_claims_first_empty_slot:
  fixes E table nm newSector flag
  defines "L \<equiv> FileNameMaxLen E"
  defines "duplicate \<equiv> \<exists>e\<in>set table. inUse e \<and> take L (name e) = take L nm"
  defines "full \<equiv> \<forall>e\<in>set table. inUse e"
  defines "slot \<equiv> LEAST i. i < length table \<and> \<not> inUse (table ! i)"
  shows "Add E table nm newSector flag =
     (if duplicate \<or> full then (False, table)
      else (True, table[slot := \<lparr>inUse = True, sector = newSector, name = take L nm,
                                 dFlag = flag\<rparr>])) \<and>
     (\<not> duplicate \<and> \<not> full \<longrightarrow>
        slot < length table \<and> \<not> inUse (table ! slot) \<and> (\<forall>k < slot. inUse (table ! k))) \<and>
     (length nm \<le> L \<longrightarrow> take L nm = nm)"
proof -
  have dup: "duplicate = (FindIndex E table nm \<noteq> -1)"
    unfolding duplicate_def L_def using FindIndex_none[of E table nm] by blast
  have full: "full = (Add_loop table 0 = None)"
    unfolding full_def by (simp add: Add_loop_none)
  have 1: "Add E table nm newSector flag =
     (if duplicate \<or> full then (False, table)
      else (True, table[slot := \<lparr>inUse = True, sector = newSector, name = take L nm,
                                 dFlag = flag\<rparr>]))"
  proof (cases "duplicate \<or> full")
    case True
    then show ?thesis unfolding dup full by (auto simp: Add_def)
  next
    case False
    then obtain r where r: "Add_loop table 0 = Some r" unfolding full by auto
    from Add_loop_Least[OF r] have "r = slot" unfolding slot_def by simp
    with False r show ?thesis unfolding dup full
      by (simp add: Add_def strncpy_def L_def entry_update_all)
  qed
  have 2: "slot < length table \<and> \<not> inUse (table ! slot) \<and> (\<forall>k < slot. inUse (table ! k))"
    if "\<not> duplicate \<and> \<not> full"
  proof -
    from that obtain r where r: "Add_loop table 0 = Some r" unfolding full by auto
    from Add_loop_Least[OF r] have "r = slot" unfolding slot_def by simp
    with Add_loop_some[OF r] show ?thesis by auto
  qed
  have 3: "length nm \<le> L \<longrightarrow> take L nm = nm" by simp
  from 1 2 3 show ?thesis by blast
qed

text \<open>
  The theorem at three tables: a free slot after an entry in use, a duplicate name, a
  full table.
\<close>

theorem Add_claims_first_empty_slot_witness:
  "Add env0 [entry ''/a'' 5 False, emptyEntry, emptyEntry] ''/b'' 7 True =
     (True, [entry ''/a'' 5 False, entry ''/b'' 7 True, emptyEntry]) \<and>
   Add env0 [entry ''/a'' 5 False, emptyEntry, emptyEntry] ''/a'' 7 True =
     (False, [entry ''/a'' 5 False, emptyEntry, emptyEntry]) \<and>
   Add env0 [entry ''/a'' 5 False, entry ''/c'' 6 False] ''/b'' 7 True =
     (False, [entry ''/a'' 5 False, entry ''/c'' 6 False])"
proof -
  let ?t = "[entry ''/a'' 5 False, emptyEntry, emptyEntry]"
  have L: "(LEAST i. i < length ?t \<and> \<not> inUse (?t ! i)) = 1"
    by (rule Least_equality) (auto simp: entry_def emptyEntry_def less_Suc_eq_0_disj nth_Cons')
  show ?thesis
    using Add_claims_first_empty_slot[of env0 ?t "''/b''" 7 True]
      Add_claims_first_empty_slot[of env0 ?t "''/a''" 7 True]
      Add_claims_first_empty_slot[of env0 "[entry ''/a'' 5 False, entry ''/c'' 6 False]" "''/b''" 7 True]
    unfolding L
    by (simp add: entry_def emptyEntry_def env0_def)
qed

lemma FindIndex_loop_cong:
  assumes "take (FileNameMaxLen E) n1 = take (FileNameMaxLen E) n2"
  shows "FindIndex_loop E table n1 i = FindIndex_loop E table n2 i"
proof -
  have s: "strncmp0 x n1 (FileNameMaxLen E) = strncmp0 x n2 (FileNameMaxLen E)" for x
    unfolding strncmp0_def assms ..
  show ?thesis by (induction table arbitrary: i) (simp_all add: s)
qed

lemma FindIndex_cong:
  "take (FileNameMaxLen E) n1 = take (FileNameMaxLen E) n2 \<Longrightarrow>
   FindIndex E table n1 = FindIndex E table n2"
  unfolding FindIndex_def by (rule FindIndex_loop_cong)

lemma Add_success_lookup:
  assumes ok: "Add E table nm s f = (True, table1)"
  shows "FindIndex E table1 nm \<noteq> -1 \<and> Find E table1 nm = s \<and> GetFlag E table1 nm = f"
proof -
  let ?L = "FileNameMaxLen E"
  from ok have nodup: "FindIndex E table nm = -1"
    by (auto simp: Add_def split: if_splits)
  with ok obtain r where r: "Add_loop table 0 = Some r"
    and t1: "table1 = table[r := \<lparr>inUse = True, sector = s, name = take ?L nm, dFlag = f\<rparr>]"
    by (auto simp: Add_def strncpy_def entry_update_all split: option.splits)
  from Add_loop_some[OF r] have rlt: "r < length table" by auto
  have new: "table1 ! r = \<lparr>inUse = True, sector = s, name = take ?L nm, dFlag = f\<rparr>"
    using rlt t1 by simp
  have "\<exists>e\<in>set table1. inUse e \<and> take ?L (name e) = take ?L nm"
  proof
    show "table1 ! r \<in> set table1" using rlt t1 by (simp add: set_update_memI)
    show "inUse (table1 ! r) \<and> take ?L (name (table1 ! r)) = take ?L nm" using new by simp
  qed
  then have found: "FindIndex E table1 nm \<noteq> -1" by (simp add: FindIndex_none)
  from FindIndex_some[OF found] obtain j where j: "j < length table1"
    "FindIndex E table1 nm = int j" "inUse (table1 ! j)"
    "take ?L (name (table1 ! j)) = take ?L nm" by blast
  have "j = r"
  proof (rule ccontr)
    assume "j \<noteq> r"
    then have "table1 ! j = table ! j" using t1 by simp
    moreover have "table ! j \<in> set table" using j(1) t1 by simp
    ultimately have "\<exists>e\<in>set table. inUse e \<and> take ?L (name e) = take ?L nm"
      using j(3,4) by (intro bexI[of _ "table ! j"]) simp_all
    with nodup show False by (simp add: FindIndex_none)
  qed
  then have fi: "FindIndex E table1 nm = int r" using j(2) by simp
  show ?thesis unfolding Find_def GetFlag_def Let_def fi using new by simp
qed

text \<open>
  Claim C9. Two names whose first \<open>FileNameMaxLen\<close> characters coincide are the same name
  for \<open>FindIndex\<close>, \<open>Find\<close>, \<open>GetFlag\<close> and \<open>Add\<close>: they give the same results on every
  table, and once one of them has been added, a lookup of the other finds that entry (its
  sector and its flag) and adding the other is refused as a duplicate.
\<close>

theorem names_compared_on_prefix:
  assumes "take (FileNameMaxLen E) n1 = take (FileNameMaxLen E) n2"
  shows "FindIndex E table n1 = FindIndex E table n2 \<and>
         Find E table n1 = Find E table n2 \<and>
         GetFlag E table n1 = GetFlag E table n2 \<and>
         Add E table n1 s f = Add E table n2 s f \<and>
         (fst (Add E table n2 s f) \<longrightarrow>
            FindIndex E (snd (Add E table n2 s f)) n1 \<noteq> -1 \<and>
            Find E (snd (Add E table n2 s f)) n1 = s \<and>
            GetFlag E (snd (Add E table n2 s f)) n1 = f \<and>
            \<not> fst (Add E (snd (Add E table n2 s f)) n1 s1 f1))"
proof -
  note c = FindIndex_cong[OF assms]
  have a: "Add E table n1 s f = Add E table n2 s f"
    unfolding Add_def strncpy_def c assms ..
  have b: "FindIndex E t1 n1 \<noteq> -1 \<and> Find E t1 n1 = s \<and> GetFlag E t1 n1 = f \<and>
           \<not> fst (Add E t1 n1 s1 f1)"
    if "Add E table n2 s f = (True, t1)" for t1
  proof -
    from that a have "Add E table n1 s f = (True, t1)" by simp
    from Add_success_lookup[OF this] show ?thesis by (simp add: Add_def)
  qed
  have "fst (Add E table n2 s f) \<longrightarrow>
            FindIndex E (snd (Add E table n2 s f)) n1 \<noteq> -1 \<and>
            Find E (snd (Add E table n2 s f)) n1 = s \<and>
            GetFlag E (snd (Add E table n2 s f)) n1 = f \<and>
            \<not> fst (Add E (snd (Add E table n2 s f)) n1 s1 f1)"
    using b[of "snd (Add E table n2 s f)"] by (cases "Add E table n2 s f") auto
  moreover have "Find E table n1 = Find E table n2" unfolding Find_def c ..
  moreover have "GetFlag E table n1 = GetFlag E table n2" unfolding GetFlag_def c ..
  ultimately show ?thesis using a c by blast
qed

text \<open>Two names of ten characters that differ in the tenth only, with \<open>FileNameMaxLen = 9\<close>.\<close>

theorem names_compared_on_prefix_witness:
  "take (FileNameMaxLen env0) ''/12345678a'' = take (FileNameMaxLen env0) ''/12345678b'' \<and>
   fst (Add env0 (newDirectory 2) ''/12345678b'' 5 True) \<and>
   Find env0 (snd (Add env0 (newDirectory 2) ''/12345678b'' 5 True)) ''/12345678a'' = 5 \<and>
   GetFlag env0 (snd (Add env0 (newDirectory 2) ''/12345678b'' 5 True)) ''/12345678a'' \<and>
   \<not> fst (Add env0 (snd (Add env0 (newDirectory 2) ''/12345678b'' 5 True)) ''/12345678a'' 6 False)"
proof -
  have h: "take (FileNameMaxLen env0) ''/12345678a'' = take (FileNameMaxLen env0) ''/12345678b''"
    by (simp add: env0_def)
  have ok: "fst (Add env0 (newDirectory 2) ''/12345678b'' 5 True)"
    by code_simp
  from names_compared_on_prefix[OF h, of "newDirectory 2" 5 True 6 False] h ok
  show ?thesis by blast
qed

subsection \<open>The descriptor table\<close>

lemma FindFormRoot_root: "FindFormRoot E d table ''/'' = Inr 1"
  by (subst FindFormRoot.simps) simp

lemma Openfile_loop_find:
  "Openfile_loop sec tbl xs =
     (case find (\<lambda>i. tbl i = NULL) xs of
        None \<Rightarrow> (20, -1, tbl)
      | Some i \<Rightarrow> (int i, int i, tbl(i := Object sec)))"
  by (induction xs) simp_all

lemma find_upt_None: "(find P [a..<b] = None) = (\<forall>i. a \<le> i \<and> i < b \<longrightarrow> \<not> P i)"
  by (auto simp: find_None_iff)

lemma find_upt_Some:
  assumes "find P [a..<b] = Some i"
  shows "a \<le> i \<and> i < b \<and> P i \<and> i = (LEAST k. a \<le> k \<and> P k)"
proof -
  from assms obtain j where j: "j < length [a..<b]" "P ([a..<b] ! j)" "i = [a..<b] ! j"
    "\<forall>k<j. \<not> P ([a..<b] ! k)" by (auto simp: find_Some_iff)
  then have i: "i = a + j" "a + j < b" by auto
  have least: "\<not> P k" if "a \<le> k" "k < i" for k
  proof -
    from that i have "k - a < j" by arith
    with j(4) have "\<not> P ([a..<b] ! (k - a))" by blast
    moreover have "[a..<b] ! (k - a) = k" using that i by simp
    ultimately show ?thesis by simp
  qed
  have "(LEAST k. a \<le> k \<and> P k) = i"
    by (rule Least_equality) (use i j least in \<open>auto simp: not_less[symmetric]\<close>)
  with i j show ?thesis by simp
qed

text \<open>Paths of one component: what \<^verbatim>\<open>strtok\<close> gives and what the resolution returns.\<close>

lemma strtok_acc_no_slash:
  "CHR ''/'' \<notin> set s \<Longrightarrow> strtok_acc s cur = (if cur @ s = [] then [] else [cur @ s])"
  by (induction s arbitrary: cur) auto

lemma strtok_single:
  assumes "tok \<noteq> []" "CHR ''/'' \<notin> set tok"
  shows "strtok (CHR ''/'' # tok) = [tok]" "strtok tok = [tok]"
  using assms by (simp_all add: strtok_def strtok_acc_no_slash)

lemma FindFormRoot_one_component:
  assumes tok: "tok \<noteq> []" "CHR ''/'' \<notin> set tok"
      and len: "length tok < 255" "length tok + 1 \<le> FileNameMaxLen E"
  shows "FindFormRoot E d table (CHR ''/'' # tok) =
           (case find (\<lambda>e. inUse e \<and> strncmp0 (name e) (CHR ''/'' # tok) (FileNameMaxLen E)) table of
              None \<Rightarrow> Inr (-1) | Some e \<Rightarrow> Inr (sector e))"
proof -
  have f: "CHR ''/'' # tok \<noteq> ''/''" "\<not> 256 \<le> length (CHR ''/'' # tok)"
    "\<not> FileNameMaxLen E + 1 < length tok + 2"
    "\<not> length (CHR ''/'' # tok) < length tok + 1"
    "drop (length tok + 1) (CHR ''/'' # tok) = []"
    using tok len by auto
  show ?thesis
    by (subst FindFormRoot.simps,
        simp only: f strtok_single(1)[OF tok] if_False if_True list.case Let_def,
        simp cong: option.case_cong)
qed

lemma FindFormRoot_bare_token:
  assumes tok: "tok \<noteq> []" "CHR ''/'' \<notin> set tok"
      and len: "length tok < 256" "length tok + 1 \<le> FileNameMaxLen E"
  shows "FindFormRoot E d table tok =
           (case find (\<lambda>e. inUse e \<and> strncmp0 (name e) (CHR ''/'' # tok) (FileNameMaxLen E)) table of
              None \<Rightarrow> Inr (-1) | Some e \<Rightarrow> Inl OutOfBounds)"
proof -
  have f: "tok \<noteq> ''/''" "\<not> 256 \<le> length tok"
    "\<not> FileNameMaxLen E + 1 < length tok + 2"
    "length tok < length tok + 1"
    using tok len by auto
  show ?thesis
    by (subst FindFormRoot.simps,
        simp only: f strtok_single(2)[OF tok] if_False if_True list.case Let_def)
qed


text \<open>
  Claim C6. \<^verbatim>\<open>Openfile\<close> resolves the path from the root directory; when the path is found
  (the sector is not negative) and one of the slots 1 to 19 is free, it binds a new handle
  on that sector in the free slot of lowest number and returns that number, leaving every
  other slot, slot 0 among them, as it was; when the path is not found or the slots 1 to 19
  are all occupied it returns \<open>-1\<close> and the table is unchanged. For a path of one component
  the sector is that of the first entry in use of the root directory whose name matches.
\<close>

theorem Openfile_lowest_free_slot:
  fixes E d tbl nm
  defines "slot \<equiv> LEAST i. 1 \<le> i \<and> tbl i = NULL"
  shows "Openfile E d tbl nm =
     (case FindFormRoot E d (Directory_FetchFrom (newDirectory NumDirEntries) DirectorySector d) nm of
        Inl err \<Rightarrow> Inl err
      | Inr sec \<Rightarrow>
          if 0 \<le> sec \<and> (\<exists>i. 1 \<le> i \<and> i < 20 \<and> tbl i = NULL)
          then Inr (int slot, tbl(slot := Object sec))
          else Inr (-1, tbl)) \<and>
     ((\<exists>i. 1 \<le> i \<and> i < 20 \<and> tbl i = NULL) \<longrightarrow>
        1 \<le> slot \<and> slot < 20 \<and> tbl slot = NULL \<and> (\<forall>j. 1 \<le> j \<and> j < slot \<longrightarrow> tbl j \<noteq> NULL)) \<and>
     (\<forall>tok. tok \<noteq> [] \<and> CHR ''/'' \<notin> set tok \<and> length tok < 255 \<and>
            length tok + 1 \<le> FileNameMaxLen E \<longrightarrow>
        Openfile E d tbl (CHR ''/'' # tok) =
          (case find (\<lambda>e. inUse e \<and> take (FileNameMaxLen E) (name e) =
                                  take (FileNameMaxLen E) (CHR ''/'' # tok))
                  (Directory_FetchFrom (newDirectory NumDirEntries) DirectorySector d) of
             None \<Rightarrow> Inr (-1, tbl)
           | Some e \<Rightarrow>
               if 0 \<le> sector e \<and> (\<exists>i. 1 \<le> i \<and> i < 20 \<and> tbl i = NULL)
               then Inr (int slot, tbl(slot := Object (sector e)))
               else Inr (-1, tbl)))"
proof -
  let ?P = "\<lambda>i. tbl i = NULL"
  let ?free = "\<exists>i. 1 \<le> i \<and> i < 20 \<and> tbl i = NULL"
  have full: "Openfile_loop sec tbl [1..<20] = (20, -1, tbl)" if "\<not> ?free" for sec
  proof -
    from that have "find ?P [1..<20] = None" unfolding find_upt_None by blast
    then show ?thesis by (simp add: Openfile_loop_find)
  qed
  have free: "Openfile_loop sec tbl [1..<20] = (int slot, int slot, tbl(slot := Object sec)) \<and>
              1 \<le> slot \<and> slot < 20 \<and> tbl slot = NULL" if "?free" for sec
  proof -
    from that have "find ?P [1..<20] \<noteq> None" unfolding find_upt_None by blast
    then obtain i where i: "find ?P [1..<20] = Some i" by blast
    from find_upt_Some[OF i] have "1 \<le> i" "i < 20" "tbl i = NULL" "i = slot"
      unfolding slot_def by auto
    with i show ?thesis by (simp add: Openfile_loop_find)
  qed
  have least: "tbl j \<noteq> NULL" if "1 \<le> j" "j < slot" for j
    using not_less_Least[of j "\<lambda>i. 1 \<le> i \<and> tbl i = NULL"] that unfolding slot_def by blast
  have 1: "Openfile E d tbl nm =
     (case FindFormRoot E d (Directory_FetchFrom (newDirectory NumDirEntries) DirectorySector d) nm of
        Inl err \<Rightarrow> Inl err
      | Inr sec \<Rightarrow>
          if 0 \<le> sec \<and> ?free then Inr (int slot, tbl(slot := Object sec))
          else Inr (-1, tbl))"
  proof (cases ?free)
    case True
    from free[OF True] show ?thesis
      by (auto simp: Openfile_def split: sum.splits)
  next
    case False
    from full[OF False] False show ?thesis
      by (auto simp: Openfile_def split: sum.splits)
  qed
  have 2: "?free \<longrightarrow> 1 \<le> slot \<and> slot < 20 \<and> tbl slot = NULL \<and>
     (\<forall>j. 1 \<le> j \<and> j < slot \<longrightarrow> tbl j \<noteq> NULL)"
    using free least by blast
  have 3: "Openfile E d tbl (CHR ''/'' # tok) =
          (case find (\<lambda>e. inUse e \<and> take (FileNameMaxLen E) (name e) =
                                  take (FileNameMaxLen E) (CHR ''/'' # tok))
                  (Directory_FetchFrom (newDirectory NumDirEntries) DirectorySector d) of
             None \<Rightarrow> Inr (-1, tbl)
           | Some e \<Rightarrow>
               if 0 \<le> sector e \<and> ?free
               then Inr (int slot, tbl(slot := Object (sector e)))
               else Inr (-1, tbl))"
    if "tok \<noteq> [] \<and> CHR ''/'' \<notin> set tok \<and> length tok < 255 \<and>
        length tok + 1 \<le> FileNameMaxLen E" for tok
  proof -
    have r: "FindFormRoot E d (Directory_FetchFrom (newDirectory NumDirEntries) DirectorySector d)
               (CHR ''/'' # tok) =
             (case find (\<lambda>e. inUse e \<and> take (FileNameMaxLen E) (name e) =
                                     take (FileNameMaxLen E) (CHR ''/'' # tok))
                     (Directory_FetchFrom (newDirectory NumDirEntries) DirectorySector d) of
                None \<Rightarrow> Inr (-1) | Some e \<Rightarrow> Inr (sector e))"
      using that FindFormRoot_one_component[of tok E d] by (simp add: strncmp0_def)
    show ?thesis
    proof (cases "?free")
      case True
      from free[OF True] show ?thesis
        by (auto simp: Openfile_def r split: option.splits)
    next
      case False
      from full[OF False] False show ?thesis
        by (auto simp: Openfile_def r split: option.splits)
    qed
  qed
  from 1 2 3 show ?thesis by blast
qed



lemma Least_slot_1: "tbl 1 = NULL \<Longrightarrow> (LEAST i. 1 \<le> i \<and> tbl i = NULL) = (1::nat)"
  by (rule Least_equality) auto

lemma Least_slot_2:
  assumes "tbl 1 \<noteq> NULL" "tbl 2 = NULL"
  shows "(LEAST i. 1 \<le> i \<and> tbl i = NULL) = (2::nat)"
proof (rule Least_equality)
  show "1 \<le> (2::nat) \<and> tbl 2 = NULL" using assms by simp
next
  fix y assume y: "1 \<le> y \<and> tbl y = NULL"
  with assms(1) have "y \<noteq> 0" "y \<noteq> 1" by auto
  then show "2 \<le> y" by arith
qed

text \<open>
  The theorem with slots 1 and 3 taken (slot 2 is claimed), with every slot taken, with
  paths that are not in the root directory, and with the paths \<open>/f\<close> and \<open>/f/x\<close> that are
  found in sectors 5 and 9.
\<close>

theorem Openfile_lowest_free_slot_witness:
  "Openfile env0 disk0 ((noHandles(1 := Object 1))(3 := Object 1)) ''/'' =
     Inr (2, (noHandles(1 := Object 1, 3 := Object 1))(2 := Object 1)) \<and>
   Openfile env0 disk0 allHandles ''/'' = Inr (-1, allHandles) \<and>
   Openfile env0 disk0 noHandles ''/nofile'' = Inr (-1, noHandles) \<and>
   Openfile env0 disk0 noHandles ''nofile'' = Inr (-1, noHandles) \<and>
   Openfile env0 diskD noHandles ''/f'' = Inr (1, noHandles(1 := Object 5)) \<and>
   Openfile env0 diskD (noHandles(1 := Object 5)) ''/f/x'' =
     Inr (2, (noHandles(1 := Object 5))(2 := Object 9))"
proof -
  let ?t = "(noHandles(1 := Object 1))(3 := Object 1)"
  let ?u = "noHandles(1 := Object 5)"
  have L: "(LEAST i. 1 \<le> i \<and> ?t i = NULL) = 2"
    by (rule Least_slot_2) (simp_all add: noHandles_def)
  have Lu: "(LEAST i. 1 \<le> i \<and> ?u i = NULL) = 2"
    by (rule Least_slot_2) (simp_all add: noHandles_def)
  have Ln: "(LEAST i. 1 \<le> i \<and> noHandles i = NULL) = 1"
    by (rule Least_slot_1) (simp add: noHandles_def)
  have free: "\<exists>i. 1 \<le> i \<and> i < 20 \<and> ?t i = NULL"
    by (intro exI[of _ 2]) (simp add: noHandles_def)
  have freeu: "\<exists>i. 1 \<le> i \<and> i < 20 \<and> ?u i = NULL"
    by (intro exI[of _ 2]) (simp add: noHandles_def)
  have freen: "\<exists>i. 1 \<le> i \<and> i < 20 \<and> noHandles i = NULL"
    by (intro exI[of _ 1]) (simp add: noHandles_def)
  have nofree: "\<not> (\<exists>i. 1 \<le> i \<and> i < 20 \<and> allHandles i = NULL)"
    by (simp add: allHandles_def)
  have r1: "FindFormRoot env0 disk0 (Directory_FetchFrom (newDirectory NumDirEntries) DirectorySector disk0) ''/'' = Inr 1"
    by code_simp
  have r2: "FindFormRoot env0 disk0 (Directory_FetchFrom (newDirectory NumDirEntries) DirectorySector disk0) ''/nofile'' = Inr (-1)"
    by code_simp
  have r3: "FindFormRoot env0 disk0 (Directory_FetchFrom (newDirectory NumDirEntries) DirectorySector disk0) ''nofile'' = Inr (-1)"
    by code_simp
  have r4: "FindFormRoot env0 diskD (Directory_FetchFrom (newDirectory NumDirEntries) DirectorySector diskD) ''/f'' = Inr 5"
    by code_simp
  have r5: "FindFormRoot env0 diskD (Directory_FetchFrom (newDirectory NumDirEntries) DirectorySector diskD) ''/f/x'' = Inr 9"
    by code_simp
  have c1: "Openfile env0 disk0 ?t ''/'' = Inr (2, ?t(2 := Object 1))"
    using Openfile_lowest_free_slot[of env0 disk0 ?t "''/''", THEN conjunct1]
    unfolding L r1 sum.case using free by simp
  have c2: "Openfile env0 disk0 allHandles ''/'' = Inr (-1, allHandles)"
    using Openfile_lowest_free_slot[of env0 disk0 allHandles "''/''", THEN conjunct1]
    unfolding r1 sum.case using nofree by simp
  have c3: "Openfile env0 disk0 noHandles ''/nofile'' = Inr (-1, noHandles)"
    using Openfile_lowest_free_slot[of env0 disk0 noHandles "''/nofile''", THEN conjunct1]
    unfolding r2 sum.case by simp
  have c4: "Openfile env0 disk0 noHandles ''nofile'' = Inr (-1, noHandles)"
    using Openfile_lowest_free_slot[of env0 disk0 noHandles "''nofile''", THEN conjunct1]
    unfolding r3 sum.case by simp
  have c5: "Openfile env0 diskD noHandles ''/f'' = Inr (1, noHandles(1 := Object 5))"
    using Openfile_lowest_free_slot[of env0 diskD noHandles "''/f''", THEN conjunct1]
    unfolding Ln r4 sum.case using freen by simp
  have c6: "Openfile env0 diskD ?u ''/f/x'' = Inr (2, ?u(2 := Object 9))"
    using Openfile_lowest_free_slot[of env0 diskD ?u "''/f/x''", THEN conjunct1]
    unfolding Lu r5 sum.case using freeu by simp
  from c1 c2 c3 c4 c5 c6 show ?thesis by (simp only: simp_thms)
qed

text \<open>
  Claim C4, as the code has it. \<^verbatim>\<open>Close(id)\<close> returns 1 exactly when \<open>id\<close> is between 1 and
  19 and the slot is not NULL, and \<open>-1\<close> otherwise with the table unchanged; on success the
  handle is deleted, but the slot is not set to NULL: the slots that are free after the call
  are those that were free before it, so no slot becomes available to \<^verbatim>\<open>Openfile\<close>.
\<close>

theorem Close_keeps_slot_occupied:
  assumes "Close tbl ident = Inr (r, tbl1)"
  shows "(r = 1 \<or> r = -1) \<and>
         (r = 1 \<longleftrightarrow> 1 \<le> ident \<and> ident < 20 \<and> tbl (nat ident) \<noteq> NULL) \<and>
         (r = -1 \<longrightarrow> tbl1 = tbl) \<and>
         (r = 1 \<longrightarrow> tbl (nat ident) \<noteq> Dangling \<and> tbl1 = tbl(nat ident := Dangling)) \<and>
         {i. tbl1 i = NULL} = {i. tbl i = NULL}"
  using assms by (auto simp: Close_def split: if_splits ptr.splits)

text \<open>
  With the nineteen slots taken, \<^verbatim>\<open>Close(1)\<close> succeeds, the next \<^verbatim>\<open>Openfile\<close> still finds
  the table full, and a second \<^verbatim>\<open>Close(1)\<close> deletes the same object again.
\<close>

theorem Close_keeps_slot_occupied_witness:
  "Close allHandles 1 = Inr (1, allHandles(1 := Dangling)) \<and>
   {i. (allHandles(1 := Dangling)) i = NULL} = {i. allHandles i = NULL} \<and>
   Openfile env0 disk0 (allHandles(1 := Dangling)) ''/'' = Inr (-1, allHandles(1 := Dangling)) \<and>
   Close (allHandles(1 := Dangling)) 1 = Inl DoubleDelete"
proof -
  have c: "Close allHandles 1 = Inr (1, allHandles(1 := Dangling))"
    by (simp add: Close_def allHandles_def)
  have o: "Openfile env0 disk0 (allHandles(1 := Dangling)) ''/'' = Inr (-1, allHandles(1 := Dangling))"
  proof -
    have "find (\<lambda>i. (allHandles(1 := Dangling)) i = NULL) [1..<20] = None"
      unfolding find_upt_None by (simp add: allHandles_def)
    then show ?thesis
      by (simp add: Openfile_def FindFormRoot_root Openfile_loop_find)
  qed
  have c2: "Close (allHandles(1 := Dangling)) 1 = Inl DoubleDelete"
    by (simp add: Close_def allHandles_def)
  from Close_keeps_slot_occupied[OF c] c o c2 show ?thesis by simp
qed

subsection \<open>Path resolution\<close>

lemma find_same_but_dFlag:
  assumes "same_but_dFlag t1 t2"
  shows "rel_option (\<lambda>a b. inUse a = inUse b \<and> sector a = sector b \<and> name a = name b)
           (find (\<lambda>e. inUse e \<and> strncmp0 (name e) buf n) t1)
           (find (\<lambda>e. inUse e \<and> strncmp0 (name e) buf n) t2)"
  using assms unfolding same_but_dFlag_def
  by (induction t1 t2 rule: list_all2_induct) auto

lemma FetchFrom_same_but_dFlag:
  assumes "same_but_dFlag (dirData d1 s) (dirData d2 s)"
  shows "same_but_dFlag (Directory_FetchFrom t s d1) (Directory_FetchFrom t s d2)"
proof -
  let ?R = "\<lambda>a b. inUse a = inUse b \<and> sector a = sector b \<and> name a = name b"
  from assms have r: "list_all2 ?R (dirData d1 s) (dirData d2 s)"
    by (simp add: same_but_dFlag_def)
  then have len: "length (dirData d1 s) = length (dirData d2 s)"
    by (rule list_all2_lengthD)
  have "list_all2 ?R (take (length t) (dirData d1 s)) (take (length t) (dirData d2 s))"
    using r by (rule list_all2_takeI)
  moreover have "list_all2 ?R (drop (length (dirData d1 s)) t) (drop (length (dirData d2 s)) t)"
    unfolding len by (simp add: list_all2_refl)
  ultimately show ?thesis
    unfolding same_but_dFlag_def Directory_FetchFrom_def by (rule list_all2_appendI)
qed

text \<open>
  Claim C2, as the code has it. \<^verbatim>\<open>FindFormRoot\<close> never reads \<^verbatim>\<open>dFlag\<close>: on two disks whose
  tables differ in the \<open>dFlag\<close> fields only, every path resolves to the same result from
  tables that differ in the same way. So a component that is not the last one and matches
  an entry that is not a sub-directory is descended through, the contents of that file
  being read as a directory table.
\<close>

theorem FindFormRoot_ignores_dFlag:
  assumes "\<forall>s. same_but_dFlag (dirData d1 s) (dirData d2 s)"
      and "same_but_dFlag t1 t2"
  shows "FindFormRoot E d1 t1 nm = FindFormRoot E d2 t2 nm"
  using assms
proof (induction E d1 t1 nm arbitrary: t2 rule: FindFormRoot.induct)
  case (1 E d1 t1 nm)
  let ?L = "FileNameMaxLen E"
  show ?case
  proof (cases "nm = ''/'' \<or> 256 \<le> length nm \<or> strtok nm = []")
    case True
    then show ?thesis
      by (subst FindFormRoot.simps, subst (2) FindFormRoot.simps) auto
  next
    case False
    then obtain tok toks where tok: "strtok nm = tok # toks" by (cases "strtok nm") auto
    show ?thesis
    proof (cases "?L + 1 < length tok + 2")
      case True
      with False tok show ?thesis
        by (subst FindFormRoot.simps, subst (2) FindFormRoot.simps) auto
    next
      case ok: False
      let ?buf = "CHR ''/'' # tok"
      let ?rest = "drop (length tok + 1) nm"
      let ?P = "\<lambda>e. inUse e \<and> strncmp0 (name e) ?buf ?L"
      have f: "nm \<noteq> ''/''" "\<not> 256 \<le> length nm" "\<not> ?L + 1 < length tok + 2"
        using False ok by auto
      have unf: "FindFormRoot E d t nm =
          (case find ?P t of None \<Rightarrow> Inr (-1)
           | Some e \<Rightarrow>
               if length nm < length tok + 1 then Inl OutOfBounds
               else if ?rest = [] then Inr (sector e)
               else FindFormRoot E d (Directory_FetchFrom (newDirectory 64) (sector e) d) ?rest)"
        for d t
        by (subst FindFormRoot.simps) (simp only: f tok if_False list.case Let_def)
      from find_same_but_dFlag[OF "1.prems"(2), of ?buf ?L]
      have rel: "rel_option (\<lambda>a b. inUse a = inUse b \<and> sector a = sector b \<and> name a = name b)
                  (find ?P t1) (find ?P t2)" .
      show ?thesis
      proof (cases "find ?P t1")
        case None
        with rel have "find ?P t2 = None" by (cases "find ?P t2") auto
        with None show ?thesis by (simp add: unf)
      next
        case (Some e1)
        with rel obtain e2 where e2: "find ?P t2 = Some e2" "sector e1 = sector e2"
          by (cases "find ?P t2") auto
        show ?thesis
        proof (cases "length nm < length tok + 1 \<or> ?rest = []")
          case True
          with Some e2 show ?thesis by (auto simp: unf)
        next
          case more: False
          then have nb: "\<not> length nm < length tok + 1" and rest: "?rest \<noteq> []" by auto
          have "same_but_dFlag (Directory_FetchFrom (newDirectory 64) (sector e1) d1)
                  (Directory_FetchFrom (newDirectory 64) (sector e1) d2)"
            using "1.prems"(1) by (intro FetchFrom_same_but_dFlag) blast
          from "1.IH"[OF f(1) f(2) tok f(3) refl Some nb refl rest "1.prems"(1) this]
          have "FindFormRoot E d1 (Directory_FetchFrom (newDirectory 64) (sector e1) d1) ?rest =
                FindFormRoot E d2 (Directory_FetchFrom (newDirectory 64) (sector e1) d2) ?rest" .
          with Some e2 nb rest show ?thesis by (simp add: unf)
        qed
      qed
    qed
  qed
qed

text \<open>
  \<open>/f\<close> is a plain file of the root directory; \<open>/f/x\<close> resolves to sector 9, as it does
  when \<open>/f\<close> is a sub-directory.
\<close>

theorem FindFormRoot_ignores_dFlag_witness:
  "(\<forall>s. same_but_dFlag (dirData diskF s) (dirData diskD s)) \<and>
   \<not> GetFlag env0 (Directory_FetchFrom (newDirectory NumDirEntries) DirectorySector diskF) ''/f'' \<and>
   FindFormRoot env0 diskF
     (Directory_FetchFrom (newDirectory NumDirEntries) DirectorySector diskF) ''/f/x'' = Inr 9 \<and>
   FindFormRoot env0 diskD
     (Directory_FetchFrom (newDirectory NumDirEntries) DirectorySector diskD) ''/f/x'' = Inr 9"
proof -
  have h1: "\<forall>s. same_but_dFlag (dirData diskF s) (dirData diskD s)"
    by (simp add: diskF_def diskD_def disk0_def same_but_dFlag_def entry_def)
  then have h2: "same_but_dFlag
      (Directory_FetchFrom (newDirectory NumDirEntries) DirectorySector diskF)
      (Directory_FetchFrom (newDirectory NumDirEntries) DirectorySector diskD)"
    by (intro FetchFrom_same_but_dFlag) blast
  have flag: "\<not> GetFlag env0
      (Directory_FetchFrom (newDirectory NumDirEntries) DirectorySector diskF) ''/f''"
    by code_simp
  have res: "FindFormRoot env0 diskF
      (Directory_FetchFrom (newDirectory NumDirEntries) DirectorySector diskF) ''/f/x'' = Inr 9"
    by code_simp
  from FindFormRoot_ignores_dFlag[OF h1 h2, of env0 "''/f/x''"] h1 flag res
  show ?thesis by simp
qed

text \<open>
  The part of the claim that holds: where the path has no undefined behaviour, a first
  component that no entry in use of the table matches gives \<open>-1\<close>.
\<close>

lemma FindFormRoot_absent:
  assumes "nm \<noteq> ''/''" "length nm < 256" "strtok nm = tok # toks"
      and "length tok + 2 \<le> FileNameMaxLen E + 1"
      and "\<forall>e\<in>set table. \<not> (inUse e \<and> strncmp0 (name e) (CHR ''/'' # tok) (FileNameMaxLen E))"
  shows "FindFormRoot E d table nm = Inr (-1)"
proof -
  have f: "\<not> 256 \<le> length nm" "\<not> FileNameMaxLen E + 1 < length tok + 2"
    using assms by auto
  have "find (\<lambda>e. inUse e \<and> strncmp0 (name e) (CHR ''/'' # tok) (FileNameMaxLen E)) table = None"
    using assms(5) by (simp add: find_None_iff)
  then show ?thesis
    by (subst FindFormRoot.simps) (simp only: assms(1,3) f if_False list.case Let_def option.case)
qed

subsection \<open>Listing\<close>

text \<open>
  Claim C10. \<^verbatim>\<open>FileSystem::List\<close> has no not-found test: when the resolution of the path
  returns \<open>-1\<close>, it reports no failure and lists the table it loads through
  \<^verbatim>\<open>OpenFile(-1)\<close>, in both the plain and the recursive mode. That is so for every path
  of one component, with or without the leading \<open>/\<close>, that no entry in use of the root
  directory matches.
\<close>

theorem List_opens_the_not_found_sector:
  "(FindFormRoot E d (Directory_FetchFrom (newDirectory NumDirEntries) DirectorySector d) nm
      = Inr (-1) \<longrightarrow>
      FileSystem_List k E d nm False =
        Some (Inr (Directory_List (Directory_FetchFrom (newDirectory NumDirEntries) (-1) d))) \<and>
      FileSystem_List k E d nm True =
        ListAll k d (Directory_FetchFrom (newDirectory NumDirEntries) (-1) d) []) \<and>
   (\<forall>tok. tok \<noteq> [] \<and> CHR ''/'' \<notin> set tok \<and> length tok < 255 \<and>
          length tok + 1 \<le> FileNameMaxLen E \<and>
          (\<forall>e\<in>set (Directory_FetchFrom (newDirectory NumDirEntries) DirectorySector d).
             \<not> (inUse e \<and> take (FileNameMaxLen E) (name e) =
                             take (FileNameMaxLen E) (CHR ''/'' # tok))) \<longrightarrow>
      FileSystem_List k E d (CHR ''/'' # tok) False =
        Some (Inr (Directory_List (Directory_FetchFrom (newDirectory NumDirEntries) (-1) d))) \<and>
      FileSystem_List k E d tok False =
        Some (Inr (Directory_List (Directory_FetchFrom (newDirectory NumDirEntries) (-1) d))) \<and>
      FileSystem_List k E d (CHR ''/'' # tok) True =
        ListAll k d (Directory_FetchFrom (newDirectory NumDirEntries) (-1) d) [] \<and>
      FileSystem_List k E d tok True =
        ListAll k d (Directory_FetchFrom (newDirectory NumDirEntries) (-1) d) [])"
proof -
  let ?root = "Directory_FetchFrom (newDirectory NumDirEntries) DirectorySector d"
  have a: "FileSystem_List k E d p False =
        Some (Inr (Directory_List (Directory_FetchFrom (newDirectory NumDirEntries) (-1) d))) \<and>
      FileSystem_List k E d p True =
        ListAll k d (Directory_FetchFrom (newDirectory NumDirEntries) (-1) d) []"
    if "FindFormRoot E d ?root p = Inr (-1)" for p
    using that by (simp add: FileSystem_List_def)
  have b: "FindFormRoot E d ?root (CHR ''/'' # tok) = Inr (-1) \<and>
           FindFormRoot E d ?root tok = Inr (-1)"
    if t: "tok \<noteq> []" "CHR ''/'' \<notin> set tok" "length tok < 255"
      "length tok + 1 \<le> FileNameMaxLen E"
      and n: "\<forall>e\<in>set ?root. \<not> (inUse e \<and> take (FileNameMaxLen E) (name e) =
                             take (FileNameMaxLen E) (CHR ''/'' # tok))" for tok
  proof -
    from n have "find (\<lambda>e. inUse e \<and> strncmp0 (name e) (CHR ''/'' # tok) (FileNameMaxLen E)) ?root
                 = None"
      by (simp add: find_None_iff strncmp0_def)
    with t show ?thesis
      by (simp add: FindFormRoot_one_component FindFormRoot_bare_token)
  qed
  from a b show ?thesis by blast
qed

text \<open>
  Two paths that are not in the root directory, with and without the leading \<open>/\<close>: what
  is listed is what sector \<open>-1\<close> gives.
\<close>

theorem List_opens_the_not_found_sector_witness:
  "FindFormRoot env0 diskG
     (Directory_FetchFrom (newDirectory NumDirEntries) DirectorySector diskG) ''/nofile'' = Inr (-1) \<and>
   FindFormRoot env0 diskG
     (Directory_FetchFrom (newDirectory NumDirEntries) DirectorySector diskG) ''nofile'' = Inr (-1) \<and>
   FileSystem_List 1 env0 diskG ''/nofile'' False = Some (Inr [''/ghost'']) \<and>
   FileSystem_List 1 env0 diskG ''/nofile'' True = Some (Inr [''/ghost'']) \<and>
   FileSystem_List 1 env0 diskG ''nofile'' False = Some (Inr [''/ghost'']) \<and>
   FileSystem_List 1 env0 diskG ''nofile'' True = Some (Inr [''/ghost''])"
proof -
  have h: "FindFormRoot env0 diskG
     (Directory_FetchFrom (newDirectory NumDirEntries) DirectorySector diskG) ''/nofile'' = Inr (-1)"
    by code_simp
  have h2: "FindFormRoot env0 diskG
     (Directory_FetchFrom (newDirectory NumDirEntries) DirectorySector diskG) ''nofile'' = Inr (-1)"
    by code_simp
  have l1: "Directory_List (Directory_FetchFrom (newDirectory NumDirEntries) (-1) diskG) = [''/ghost'']"
    by code_simp
  have l2: "ListAll 1 diskG (Directory_FetchFrom (newDirectory NumDirEntries) (-1) diskG) [] =
            Some (Inr [''/ghost''])"
    by code_simp
  from List_opens_the_not_found_sector[of env0 diskG "''/nofile''" 1, THEN conjunct1] h
  have a: "FileSystem_List 1 env0 diskG ''/nofile'' False = Some (Inr [''/ghost'']) \<and>
           FileSystem_List 1 env0 diskG ''/nofile'' True = Some (Inr [''/ghost''])"
    unfolding l1 l2 by blast
  from List_opens_the_not_found_sector[of env0 diskG "''nofile''" 1, THEN conjunct1] h2
  have b: "FileSystem_List 1 env0 diskG ''nofile'' False = Some (Inr [''/ghost'']) \<and>
           FileSystem_List 1 env0 diskG ''nofile'' True = Some (Inr [''/ghost''])"
    unfolding l1 l2 by blast
  from h h2 a b show ?thesis by (simp only: simp_thms)
qed

subsection \<open>Deallocation\<close>

lemma clear_chain_eq: "clear_chain h s freeMap = freeMap - set (chain_sectors h s)"
  by (induction h s freeMap rule: clear_chain.induct) (auto simp: Clear_def)

lemma Remove_deallocate_clears:
  "Remove_deallocate E d sec =
     Deallocate E (hdrs d sec) (freeMapData d) - set (chain_sectors (Some (hdrs d sec)) sec)"
  by (simp add: Remove_deallocate_def FileHeader_FetchFrom_def PersistentBitmap_def clear_chain_eq
      Let_def)

lemma Remove_Suc_True:
  assumes "Remove (Suc k) E d nm flag = Some (Inr (True, d1))"
  shows "\<exists>pd ptable fileName sec dflag d2.
           Remove_target E d nm flag = Inr (Some (pd, ptable, fileName, sec, dflag)) \<and>
           (if dflag \<and> flag
            then Remove_subdirectory (\<lambda>d1 p. Remove k E d1 p flag) nm sec d = Some (Inr d2)
            else d2 = d) \<and>
           d1 = Remove_commit E pd ptable fileName sec d2"
  using assms
  by (auto simp: Remove.simps andThen_def split: sum.splits option.splits if_splits)

text \<open>
  Claim C7. When \<^verbatim>\<open>Remove\<close> returns TRUE, the bitmap it has written is the one loaded
  after the sub-directory step, with the data blocks deallocated by the header of the
  target, loaded from the target's sector, and then every sector of the header chain
  cleared by the loop: the target's sector and the sector of each chained header. None of
  them is marked in the bitmap on disk after the call.
\<close>

theorem Remove_clears_header_chain:
  assumes "Remove (Suc k) E d nm flag = Some (Inr (True, d1))"
  shows "\<exists>pd ptable fileName sec dflag d2.
           Remove_target E d nm flag = Inr (Some (pd, ptable, fileName, sec, dflag)) \<and>
           (if dflag \<and> flag
            then Remove_subdirectory (\<lambda>d1 p. Remove k E d1 p flag) nm sec d = Some (Inr d2)
            else d2 = d) \<and>
           freeMapData d1 =
             Deallocate E (hdrs d2 sec) (freeMapData d2) - set (chain_sectors (Some (hdrs d2 sec)) sec) \<and>
           sec \<in> set (chain_sectors (Some (hdrs d2 sec)) sec) \<and>
           (\<forall>s\<in>set (chain_sectors (Some (hdrs d2 sec)) sec). s \<notin> freeMapData d1)"
proof -
  from Remove_Suc_True[OF assms] obtain pd ptable fileName sec dflag d2 where
    t: "Remove_target E d nm flag = Inr (Some (pd, ptable, fileName, sec, dflag))"
    and s: "if dflag \<and> flag
            then Remove_subdirectory (\<lambda>d1 p. Remove k E d1 p flag) nm sec d = Some (Inr d2)
            else d2 = d"
    and c: "d1 = Remove_commit E pd ptable fileName sec d2"
    by blast
  have m: "freeMapData d1 =
      Deallocate E (hdrs d2 sec) (freeMapData d2) - set (chain_sectors (Some (hdrs d2 sec)) sec)"
    unfolding c
    by (simp add: Remove_commit_def Let_def Directory_WriteBack_def Bitmap_WriteBack_def
        Remove_deallocate_clears)
  have first: "sec \<in> set (chain_sectors (Some (hdrs d2 sec)) sec)"
    by (cases "hdrs d2 sec") simp
  from m have "\<forall>s\<in>set (chain_sectors (Some (hdrs d2 sec)) sec). s \<notin> freeMapData d1"
    by blast
  with t s m first show ?thesis by blast
qed

text \<open>A file whose header in sector 4 chains to a header in sector 5: both are free afterwards.\<close>

theorem Remove_clears_header_chain_witness:
  "\<exists>d1. Remove 1 env0 diskC ''/x'' False = Some (Inr (True, d1)) \<and>
        freeMapData d1 = {0, 1, 2, 3} \<and> 4 \<notin> freeMapData d1 \<and> 5 \<notin> freeMapData d1"
proof -
  have "case Remove 1 env0 diskC ''/x'' False of Some (Inr (b, d)) \<Rightarrow> b | _ \<Rightarrow> False"
    by code_simp
  then obtain d1 where r1: "Remove 1 env0 diskC ''/x'' False = Some (Inr (True, d1))"
    by (auto split: option.splits sum.splits)
  then have r: "Remove (Suc 0) env0 diskC ''/x'' False = Some (Inr (True, d1))"
    by (simp only: One_nat_def)
  have "case Remove_target env0 diskC ''/x'' False of
             Inr (Some (pd, ptable, fileName, sec, dflag)) \<Rightarrow> sec = 4 \<and> \<not> dflag
           | _ \<Rightarrow> False"
    by code_simp
  then obtain pd ptable fileName where
    t: "Remove_target env0 diskC ''/x'' False = Inr (Some (pd, ptable, fileName, 4, False))"
    by (auto split: sum.splits option.splits)
  have ch: "chain_sectors (Some (hdrs diskC 4)) 4 = [4, 5]"
    by (simp add: diskC_def)
  have de: "Deallocate env0 (hdrs diskC 4) (freeMapData diskC) = {0, 1, 2, 3, 4, 5}"
    by (auto simp: diskC_def env0_def Deallocate0_def)
  from Remove_clears_header_chain[OF r] obtain pd' ptable' fileName' sec dflag d2 where
    a: "Remove_target env0 diskC ''/x'' False = Inr (Some (pd', ptable', fileName', sec, dflag))"
    and b: "if dflag \<and> False
            then Remove_subdirectory (\<lambda>d1 p. Remove 0 env0 d1 p False) ''/x'' sec diskC = Some (Inr d2)
            else d2 = diskC"
    and m: "freeMapData d1 =
      Deallocate env0 (hdrs d2 sec) (freeMapData d2) - set (chain_sectors (Some (hdrs d2 sec)) sec)"
    by (elim exE conjE) (rule that)
  from a have sec: "sec = 4" unfolding t by simp
  from b have d2: "d2 = diskC" by simp
  have "{0, 1, 2, 3, 4, 5} - set [4, 5] = {0, 1, 2, 3::int}" by auto
  with m have fm: "freeMapData d1 = {0, 1, 2, 3}" unfolding sec d2 ch de by simp
  have n4: "4 \<notin> freeMapData d1" and n5: "5 \<notin> freeMapData d1" unfolding fm by simp_all
  show ?thesis
    by (rule exI[of _ d1]) (intro conjI r1 fm n4 n5)
qed

subsection \<open>Unique names\<close>

lemma unique_prefixes_names: "unique_prefixes E table \<Longrightarrow> unique_names table"
  unfolding unique_prefixes_def unique_names_def by metis

lemma FetchFrom_nth_inUse:
  assumes "i < length (Directory_FetchFrom (newDirectory n) s d)"
      and "inUse (Directory_FetchFrom (newDirectory n) s d ! i)"
  shows "i < length (dirData d s) \<and>
         Directory_FetchFrom (newDirectory n) s d ! i = dirData d s ! i"
  using assms
  by (auto simp: Directory_FetchFrom_def newDirectory_def nth_append emptyEntry_def
      split: if_splits)

lemma unique_prefixes_FetchFrom:
  assumes "unique_prefixes E (dirData d s)"
  shows "unique_prefixes E (Directory_FetchFrom (newDirectory n) s d)"
  unfolding unique_prefixes_def
proof (intro allI impI)
  fix i j
  let ?t = "Directory_FetchFrom (newDirectory n) s d"
  assume i: "i < length ?t" and j: "j < length ?t"
    and h: "i \<noteq> j \<and> inUse (?t ! i) \<and> inUse (?t ! j)"
  from FetchFrom_nth_inUse[OF i] h have i': "i < length (dirData d s)" "?t ! i = dirData d s ! i"
    by auto
  from FetchFrom_nth_inUse[OF j] h have j': "j < length (dirData d s)" "?t ! j = dirData d s ! j"
    by auto
  from assms i' j' h
  show "take (FileNameMaxLen E) (name (?t ! i)) \<noteq> take (FileNameMaxLen E) (name (?t ! j))"
    unfolding unique_prefixes_def by auto
qed

lemma unique_prefixes_Add:
  assumes u: "unique_prefixes E t" and a: "Add E t nm s f = (b, t1)"
  shows "unique_prefixes E t1"
proof (cases b)
  case False
  with a have "t1 = t" by (auto simp: Add_def split: if_splits option.splits)
  with u show ?thesis by simp
next
  case True
  let ?L = "FileNameMaxLen E"
  let ?new = "\<lparr>inUse = True, sector = s, name = take ?L nm, dFlag = f\<rparr>"
  from a True have nodup: "FindIndex E t nm = -1"
    by (auto simp: Add_def split: if_splits)
  with a True obtain r where r: "Add_loop t 0 = Some r"
    by (cases "Add_loop t 0") (simp_all add: Add_def)
  from a True have t1: "t1 = t[r := ?new]"
    unfolding Add_def nodup r strncpy_def entry_update_all by simp
  from nodup have fresh: "\<not> (inUse (t ! k) \<and> take ?L (name (t ! k)) = take ?L nm)"
    if "k < length t" for k
    using that by (auto simp: FindIndex_none)
  show ?thesis
    unfolding unique_prefixes_def
  proof (intro allI impI)
    fix i j
    assume i: "i < length t1" and j: "j < length t1"
      and h: "i \<noteq> j \<and> inUse (t1 ! i) \<and> inUse (t1 ! j)"
    from i j t1 have i': "i < length t" and j': "j < length t" by simp_all
    consider "i = r" | "j = r" | "i \<noteq> r" "j \<noteq> r" by blast
    then show "take ?L (name (t1 ! i)) \<noteq> take ?L (name (t1 ! j))"
    proof cases
      case 1
      with h have "j \<noteq> r" by simp
      with t1 h have "t1 ! j = t ! j" "inUse (t ! j)" by simp_all
      with fresh[OF j'] have "take ?L (name (t1 ! j)) \<noteq> take ?L nm" by simp
      moreover have "take ?L (name (t1 ! i)) = take ?L nm" using 1 t1 i' by simp
      ultimately show ?thesis by simp
    next
      case 2
      with h have "i \<noteq> r" by simp
      with t1 h have "t1 ! i = t ! i" "inUse (t ! i)" by simp_all
      with fresh[OF i'] have "take ?L (name (t1 ! i)) \<noteq> take ?L nm" by simp
      moreover have "take ?L (name (t1 ! j)) = take ?L nm" using 2 t1 j' by simp
      ultimately show ?thesis by simp
    next
      case 3
      with t1 have "t1 ! i = t ! i" "t1 ! j = t ! j" by simp_all
      with u i' j' h show ?thesis unfolding unique_prefixes_def by simp
    qed
  qed
qed

lemma unique_prefixes_Directory_Remove:
  assumes u: "unique_prefixes E t"
  shows "unique_prefixes E (snd (Directory_Remove E t nm))"
proof (cases "FindIndex E t nm = -1")
  case True
  with u show ?thesis by (simp add: Directory_Remove_def)
next
  case False
  define r where "r = nat (FindIndex E t nm)"
  have t1: "snd (Directory_Remove E t nm) = t[r := (t ! r)\<lparr>inUse := False\<rparr>]"
    using False by (simp add: Directory_Remove_def r_def Let_def)
  have sub: "inUse (t ! k) \<and> name (t[r := (t ! r)\<lparr>inUse := False\<rparr>] ! k) = name (t ! k)"
    if "k < length t" "inUse (t[r := (t ! r)\<lparr>inUse := False\<rparr>] ! k)" for k
    using that by (cases "k = r") simp_all
  show ?thesis
    unfolding t1 unique_prefixes_def
  proof (intro allI impI)
    fix i j
    let ?t1 = "t[r := (t ! r)\<lparr>inUse := False\<rparr>]"
    assume i: "i < length ?t1" and j: "j < length ?t1"
      and h: "i \<noteq> j \<and> inUse (?t1 ! i) \<and> inUse (?t1 ! j)"
    from i j have i': "i < length t" and j': "j < length t" by simp_all
    from sub[OF i'] sub[OF j'] h u i' j'
    show "take (FileNameMaxLen E) (name (?t1 ! i)) \<noteq> take (FileNameMaxLen E) (name (?t1 ! j))"
      unfolding unique_prefixes_def by simp
  qed
qed

lemma unique_prefixes_newDirectory: "unique_prefixes E (newDirectory n)"
  by (simp add: unique_prefixes_def newDirectory_def emptyEntry_def)

lemma disk_unique_Directory_WriteBack:
  "disk_unique E d \<Longrightarrow> unique_prefixes E t \<Longrightarrow> disk_unique E (Directory_WriteBack t s d)"
  by (simp add: disk_unique_def Directory_WriteBack_def)

lemma disk_unique_Bitmap_WriteBack:
  "disk_unique E (Bitmap_WriteBack m d) = disk_unique E d"
  by (simp add: disk_unique_def Bitmap_WriteBack_def)

lemma disk_unique_FileHeader_WriteBack:
  "disk_unique E (FileHeader_WriteBack h s d) = disk_unique E d"
  by (simp add: disk_unique_def FileHeader_WriteBack_def)

lemma disk_unique_FetchFrom:
  "disk_unique E d \<Longrightarrow> unique_prefixes E (Directory_FetchFrom (newDirectory n) s d)"
  by (simp add: disk_unique_def unique_prefixes_FetchFrom)

lemma Create_newDirectory_unique:
  "disk_unique E d \<Longrightarrow> Create_newDirectory f b s d = Inr (b1, d1) \<Longrightarrow> disk_unique E d1"
  by (auto simp: Create_newDirectory_def disk_unique_Directory_WriteBack
      unique_prefixes_newDirectory split: if_splits)

lemma Create_unique:
  assumes u: "disk_unique E d" and c: "Create E d nm initialSize directoryFlag = Inr (b, d1)"
  shows "disk_unique E d1"
proof -
  note cn = Create_newDirectory_unique
  have w: "disk_unique E (Bitmap_WriteBack m (Directory_WriteBack t1 pd (FileHeader_WriteBack h s d)))"
    if "Add E (Directory_FetchFrom (newDirectory NumDirEntries) pd d) fileName s directoryFlag = (True, t1)"
    for m t1 pd h s fileName
    unfolding disk_unique_Bitmap_WriteBack
    by (intro disk_unique_Directory_WriteBack unique_prefixes_Add[OF _ that]
        disk_unique_FetchFrom u) (simp_all add: disk_unique_FileHeader_WriteBack u)
  from c u show ?thesis
    unfolding Create_def Let_def
    by (auto split: sum.splits prod.splits if_splits bool.splits option.splits
        intro: cn[OF u] cn[OF w])
qed

lemma Remove_target_Some:
  assumes "Remove_target E d nm flag = Inr (Some (pd, ptable, fileName, sec, dflag))"
  shows "ptable = Directory_FetchFrom (newDirectory NumDirEntries) pd d \<and>
         sec = Find E ptable fileName \<and> dflag = GetFlag E ptable fileName \<and>
         sec \<noteq> -1 \<and> pd \<noteq> -1 \<and> (dflag \<longrightarrow> flag) \<and>
         (\<exists>directory. split_path nm = Inr (directory, fileName) \<and>
            FindFormRoot E d (Directory_FetchFrom (newDirectory NumDirEntries) DirectorySector d)
              directory = Inr pd)"
  using assms unfolding Remove_target_def Let_def
  by (auto split: sum.splits prod.splits if_splits)

text \<open>
  A property of the tables that loading and \<^verbatim>\<open>Directory::Remove\<close> keep is kept, for every
  table of the disk, by \<^verbatim>\<open>FileSystem::Remove\<close>: it writes tables it has loaded, one of them
  with an entry marked free.
\<close>

lemma Remove_loop_tables:
  assumes rm: "\<And>d p b d1. \<forall>s. Q (dirData d s) \<Longrightarrow> rm d p = Some (Inr (b, d1)) \<Longrightarrow>
                 \<forall>s. Q (dirData d1 s)"
  shows "\<forall>s. Q (dirData d s) \<Longrightarrow> Remove_loop rm nm es d = Some (Inr d1) \<Longrightarrow>
         \<forall>s. Q (dirData d1 s)"
proof (induction es arbitrary: d)
  case Nil
  then show ?case by simp
next
  case (Cons e es)
  show ?case
  proof (cases "inUse e")
    case False
    with Cons show ?thesis by simp
  next
    case True
    with Cons.prems(2) obtain b d2 where
      step: "rm d (nm @ name e) = Some (Inr (b, d2))" and
      rest: "Remove_loop rm nm es d2 = Some (Inr d1)"
      by (auto simp: andThen_def split: if_splits option.splits sum.splits)
    from rm[OF Cons.prems(1) step] have "\<forall>s. Q (dirData d2 s)" .
    from Cons.IH[OF this rest] show ?thesis .
  qed
qed

lemma Remove_tables:
  assumes load: "\<And>d s. Q (dirData d s) \<Longrightarrow> Q (Directory_FetchFrom (newDirectory NumDirEntries) s d)"
      and free: "\<And>t p. Q t \<Longrightarrow> Q (snd (Directory_Remove E t p))"
  shows "\<forall>s. Q (dirData d s) \<Longrightarrow> Remove k E d nm flag = Some (Inr (b, d1)) \<Longrightarrow>
         \<forall>s. Q (dirData d1 s)"
proof (induction k arbitrary: d nm b d1)
  case 0
  then show ?case by (simp add: Remove.simps)
next
  case (Suc k)
  note q = Suc.prems(1)
  show ?case
  proof (cases b)
    case False
    with Suc.prems(2) have "d1 = d"
      by (auto simp: Remove.simps andThen_def split: sum.splits option.splits if_splits)
    with q show ?thesis by simp
  next
    case True
    with Suc.prems(2) have "Remove (Suc k) E d nm flag = Some (Inr (True, d1))" by simp
    from Remove_Suc_True[OF this] obtain pd ptable fileName sec dflag d2 where
      t: "Remove_target E d nm flag = Inr (Some (pd, ptable, fileName, sec, dflag))"
      and s: "if dflag \<and> flag
              then Remove_subdirectory (\<lambda>d1 p. Remove k E d1 p flag) nm sec d = Some (Inr d2)
              else d2 = d"
      and c: "d1 = Remove_commit E pd ptable fileName sec d2"
      by (elim exE conjE) (rule that)
    have q2: "\<forall>s. Q (dirData d2 s)"
    proof (cases "dflag \<and> flag")
      case False
      with s q show ?thesis by simp
    next
      case True
      let ?t = "Directory_FetchFrom (newDirectory NumDirEntries) sec d"
      from True s obtain d3 where
        l: "Remove_loop (\<lambda>d1 p. Remove k E d1 p flag) nm ?t d = Some (Inr d3)"
        and d2: "d2 = Directory_WriteBack ?t sec d3"
        by (auto simp: Remove_subdirectory_def Let_def andThen_def
            split: option.splits sum.splits)
      from Remove_loop_tables[of Q "\<lambda>d1 p. Remove k E d1 p flag", OF Suc.IH q l]
      have "\<forall>s. Q (dirData d3 s)" .
      moreover from q have "Q ?t" by (intro load) blast
      ultimately show ?thesis unfolding d2 by (simp add: Directory_WriteBack_def)
    qed
    from Remove_target_Some[OF t] q have "Q ptable" by (simp add: load)
    then have "Q (snd (Directory_Remove E ptable fileName))" by (rule free)
    with q2 show ?thesis
      unfolding c Remove_commit_def Let_def
      by (simp add: Directory_WriteBack_def Bitmap_WriteBack_def)
  qed
qed

lemma Remove_unique:
  assumes "disk_unique E d" "Remove k E d nm flag = Some (Inr (b, d1))"
  shows "disk_unique E d1"
  using Remove_tables[of "unique_prefixes E" E d k nm flag b d1,
      OF unique_prefixes_FetchFrom unique_prefixes_Directory_Remove] assms
  unfolding disk_unique_def by blast

lemma run_unique:
  "disk_unique E d \<Longrightarrow> run k E ops d = Some (Inr d1) \<Longrightarrow> disk_unique E d1"
proof (induction ops arbitrary: d)
  case Nil
  then show ?case by simp
next
  case (Cons a ops)
  show ?case
  proof (cases a)
    case (OpCreate nm initialSize directoryFlag)
    with Cons.prems(2) obtain b d2 where
      c: "Create E d nm initialSize directoryFlag = Inr (b, d2)" and r: "run k E ops d2 = Some (Inr d1)"
      by (auto simp: andThen_def split: sum.splits)
    from Cons.IH[OF Create_unique[OF Cons.prems(1) c] r] show ?thesis .
  next
    case (OpRemove nm flag)
    with Cons.prems(2) obtain b d2 where
      c: "Remove k E d nm flag = Some (Inr (b, d2))" and r: "run k E ops d2 = Some (Inr d1)"
      by (auto simp: andThen_def split: sum.splits option.splits)
    from Cons.IH[OF Remove_unique[OF Cons.prems(1) c] r] show ?thesis .
  qed
qed

text \<open>
  Claim C5. From a disk on which no table has two entries in use whose names agree on
  their first \<open>FileNameMaxLen\<close> characters (a formatted disk is one), every sequence of
  \<^verbatim>\<open>Create\<close> and \<^verbatim>\<open>Remove\<close> calls, whatever each returns, leads to a disk with the same
  property; so in every table stored on it, and in every table loaded from it, no two
  entries in use have the same name.
\<close>

theorem Create_Remove_keep_names_unique:
  assumes "disk_unique E d" and "run k E ops d = Some (Inr d1)"
  shows "disk_unique E d1 \<and>
         (\<forall>s. unique_names (dirData d1 s)) \<and>
         (\<forall>s. unique_names (Directory_FetchFrom (newDirectory NumDirEntries) s d1))"
proof -
  from run_unique[OF assms] have u: "disk_unique E d1" .
  then have "unique_names (dirData d1 s)" for s
    unfolding disk_unique_def by (intro unique_prefixes_names[of E]) blast
  moreover have "unique_names (Directory_FetchFrom (newDirectory NumDirEntries) s d1)" for s
    by (intro unique_prefixes_names[of E] disk_unique_FetchFrom u)
  ultimately show ?thesis using u by blast
qed

text \<open>The theorem on the formatted disk and the calls of \<open>ops0\<close>.\<close>

theorem Create_Remove_keep_names_unique_witness:
  "disk_unique env0 disk0 \<and>
   (\<exists>d1. run 2 env0 ops0 disk0 = Some (Inr d1) \<and>
      map name (filter inUse (dirData d1 1)) = [''/y''] \<and>
      unique_names (dirData d1 1) \<and> unique_names (dirData d1 4))"
proof -
  have u: "disk_unique env0 disk0"
    by (simp add: disk_unique_def unique_prefixes_def disk0_def)
  have "case run 2 env0 ops0 disk0 of
          Some (Inr d1) \<Rightarrow> map name (filter inUse (dirData d1 1)) = [''/y''] | _ \<Rightarrow> False"
    by code_simp
  then obtain d1 where r: "run 2 env0 ops0 disk0 = Some (Inr d1)"
    and n: "map name (filter inUse (dirData d1 1)) = [''/y'']"
    by (auto split: option.splits sum.splits)
  from Create_Remove_keep_names_unique[OF u r]
  have un1: "unique_names (dirData d1 1)" and un4: "unique_names (dirData d1 4)" by blast+
  show ?thesis by (intro conjI exI[of _ d1] u r n un1 un4)
qed

subsection \<open>Create\<close>

text \<open>
  Claim C1, as the code has it. When \<^verbatim>\<open>Create\<close> returns FALSE, no header and no bitmap
  has been written, and for a plain file the disk is as it was. With \<^verbatim>\<open>directoryFlag\<close> set
  and the parent directory found, the empty table of the new directory is written all the
  same, through \<^verbatim>\<open>OpenFile(sector)\<close> on the sector that \<^verbatim>\<open>FindAndSet\<close> returned (which is
  \<open>-1\<close> when no sector is free): the block that writes it follows the \<^verbatim>\<open>if\<close> instead of
  standing in its successful branch.
\<close>

theorem Create_failure_writes_new_directory:
  assumes "Create E d nm initialSize directoryFlag = Inr (False, d1)"
  shows "hdrs d1 = hdrs d \<and> freeMapData d1 = freeMapData d \<and>
         (\<not> directoryFlag \<longrightarrow> d1 = d) \<and>
         (directoryFlag \<longrightarrow>
            (\<exists>directory fileName pd.
               split_path nm = Inr (directory, fileName) \<and>
               FindFormRoot E d (Directory_FetchFrom (newDirectory NumDirEntries) DirectorySector d)
                 directory = Inr pd \<and>
               (if 0 \<le> pd
                then d1 = Directory_WriteBack (newDirectory NumDirEntries)
                            (fst (FindAndSet E (PersistentBitmap d))) d
                else d1 = d)))"
  using assms unfolding Create_def Let_def Create_newDirectory_def
  by (auto simp: Directory_WriteBack_def
      split: sum.splits prod.splits if_splits bool.splits option.splits)

text \<open>
  On the disk with a single free sector, creating the directory \<open>/d\<close> fails for lack of
  data sectors, and the table that sector 9 gave is overwritten by an empty one.
\<close>

theorem Create_failure_writes_new_directory_witness:
  "\<exists>d1. Create env0 diskN ''/d'' 0 True = Inr (False, d1) \<and>
        dirData diskN 9 = [entry ''/old'' 3 False] \<and>
        dirData d1 9 = newDirectory NumDirEntries \<and> d1 \<noteq> diskN"
proof -
  have "case Create env0 diskN ''/d'' 0 True of Inr (b, d) \<Rightarrow> \<not> b | _ \<Rightarrow> False"
    by code_simp
  then obtain d1 where c: "Create env0 diskN ''/d'' 0 True = Inr (False, d1)"
    by (auto split: sum.splits)
  have sp: "split_path ''/d'' = Inr (''/'', ''/d'')"
    by code_simp
  have fs: "fst (FindAndSet env0 (PersistentBitmap diskN)) = 9"
    by code_simp
  from Create_failure_writes_new_directory[OF c]
  have "\<exists>directory fileName pd.
          split_path ''/d'' = Inr (directory, fileName) \<and>
          FindFormRoot env0 diskN
            (Directory_FetchFrom (newDirectory NumDirEntries) DirectorySector diskN) directory
            = Inr pd \<and>
          (if 0 \<le> pd
           then d1 = Directory_WriteBack (newDirectory NumDirEntries)
                       (fst (FindAndSet env0 (PersistentBitmap diskN))) diskN
           else d1 = diskN)"
    by simp
  then obtain directory fileName pd where
    a: "split_path ''/d'' = Inr (directory, fileName)"
    and b: "FindFormRoot env0 diskN
              (Directory_FetchFrom (newDirectory NumDirEntries) DirectorySector diskN) directory = Inr pd"
    and w: "if 0 \<le> pd
            then d1 = Directory_WriteBack (newDirectory NumDirEntries)
                        (fst (FindAndSet env0 (PersistentBitmap diskN))) diskN
            else d1 = diskN"
    by (elim exE conjE) (rule that)
  from a have "directory = ''/''" unfolding sp by simp
  with b have "pd = 1" by (simp add: FindFormRoot_root)
  with w have d1: "d1 = Directory_WriteBack (newDirectory NumDirEntries) 9 diskN"
    unfolding fs by simp
  have old: "dirData diskN 9 = [entry ''/old'' 3 False]"
    by (simp add: diskN_def)
  have new: "dirData d1 9 = newDirectory NumDirEntries"
    unfolding d1 by (simp add: Directory_WriteBack_def)
  have "length (dirData d1 9) \<noteq> length (dirData diskN 9)"
    unfolding new old by (simp add: newDirectory_def NumDirEntries_def)
  then have ne: "d1 \<noteq> diskN" by auto
  show ?thesis by (intro exI[of _ d1] conjI c old new ne)
qed

text \<open>
  With the name already in the parent directory and \<^verbatim>\<open>directoryFlag\<close> set, the block
  that initialises the new directory reads \<^verbatim>\<open>sector\<close>, which no statement has assigned.
\<close>

lemma Create_duplicate_directory:
  "Create env0 diskD ''/f'' 0 True = Inl Uninitialized"
proof -
  have "case Create env0 diskD ''/f'' 0 True of Inl err \<Rightarrow> err = Uninitialized | Inr r \<Rightarrow> False"
    by code_simp
  then show ?thesis by (simp split: sum.splits)
qed

text \<open>
  The other direction: when \<^verbatim>\<open>Create\<close> returns TRUE, the header, the parent table with the
  new entry and the bitmap have been written, and the empty table of a new directory after
  them.
\<close>

lemma Create_success_writes:
  assumes "Create E d nm initialSize directoryFlag = Inr (True, d1)"
  shows "\<exists>directory fileName pd sec freeMap table1 hdr freeMap1.
           split_path nm = Inr (directory, fileName) \<and>
           FindFormRoot E d (Directory_FetchFrom (newDirectory NumDirEntries) DirectorySector d)
             directory = Inr pd \<and> 0 \<le> pd \<and>
           FindAndSet E (PersistentBitmap d) = (sec, freeMap) \<and> sec \<noteq> -1 \<and>
           Add E (Directory_FetchFrom (newDirectory NumDirEntries) pd d) fileName sec directoryFlag
             = (True, table1) \<and>
           Allocate E freeMap (if directoryFlag then DirectoryFileSize E else initialSize)
             = Some (hdr, freeMap1) \<and>
           d1 = (if directoryFlag then Directory_WriteBack (newDirectory NumDirEntries) sec else id)
                  (Bitmap_WriteBack freeMap1
                    (Directory_WriteBack table1 pd (FileHeader_WriteBack hdr sec d)))"
  using assms unfolding Create_def Let_def Create_newDirectory_def
  by (auto split: sum.splits prod.splits if_splits bool.splits option.splits)

subsection \<open>Recursive removal\<close>

text \<open>
  The loop over the entries of the sub-directory goes on whatever a call returns, and only
  the entries in use count.
\<close>

lemma Remove_loop_drops_result:
  "Remove_loop (\<lambda>d p. andThen (rm d p) (\<lambda>(b, d1). Some (Inr (g b, d1)))) nm es d =
   Remove_loop rm nm es d"
proof (induction es arbitrary: d)
  case Nil
  then show ?case by simp
next
  case (Cons e es)
  then show ?case
    by (auto simp: andThen_def split: option.splits sum.splits)
qed

lemma Remove_loop_inUse: "Remove_loop rm nm (filter inUse es) d = Remove_loop rm nm es d"
proof (induction es arbitrary: d)
  case Nil
  then show ?case by simp
next
  case (Cons e es)
  then show ?case
    by (auto simp: andThen_def split: option.splits sum.splits)
qed

lemma andThen_simps:
  "andThen None f = None"
  "andThen (Some (Inl err)) f = Some (Inl err)"
  "andThen (Some (Inr x)) f = f x"
  by (simp_all add: andThen_def)

lemma foldl_andThen_None:
  "foldl (\<lambda>acc e. andThen acc (f e)) None xs = None"
  by (induction xs) (simp_all add: andThen_def)

lemma foldl_andThen_Inl:
  "foldl (\<lambda>acc e. andThen acc (f e)) (Some (Inl err)) xs = Some (Inl err)"
  by (induction xs) (simp_all add: andThen_def)

lemma Remove_loop_foldl:
  "Remove_loop rm nm es d =
     foldl (\<lambda>acc e. andThen acc (\<lambda>d'.
              if 256 \<le> length nm + length (name e) then Some (Inl BufferOverflow)
              else andThen (rm d' (nm @ name e)) (\<lambda>(b, d1). Some (Inr d1))))
       (Some (Inr d)) (filter inUse es)"
proof (induction es arbitrary: d)
  case Nil
  then show ?case by simp
next
  case (Cons e es)
  let ?f = "\<lambda>e d'. if 256 \<le> length nm + length (name e) then Some (Inl BufferOverflow)
              else andThen (rm d' (nm @ name e)) (\<lambda>(b, d1). Some (Inr d1))"
  show ?case
  proof (cases "inUse e")
    case False
    with Cons show ?thesis by simp
  next
    case True
    show ?thesis
    proof (cases "256 \<le> length nm + length (name e)")
      case over: True
      with True show ?thesis
        by (simp add: andThen_simps foldl_andThen_Inl[of ?f])
    next
      case fits: False
      show ?thesis
      proof (cases "rm d (nm @ name e)")
        case None
        with True fits show ?thesis
          by (simp add: andThen_simps foldl_andThen_None[of ?f])
      next
        case (Some r)
        show ?thesis
        proof (cases r)
          case (Inl err)
          with Some True fits show ?thesis
            by (simp add: andThen_simps foldl_andThen_Inl[of ?f])
        next
          case (Inr bd)
          obtain b d1 where "bd = (b, d1)" by (cases bd)
          with Inr Some True fits Cons.IH[of d1] show ?thesis
            by (simp add: andThen_simps)
        qed
      qed
    qed
  qed
qed

text \<open>
  Claim C3, as the code has it. When \<^verbatim>\<open>Remove(path, TRUE)\<close> on a sub-directory returns
  TRUE: the sub-directory has been loaded once; \<^verbatim>\<open>Remove\<close> has been called, in table
  order, on the path followed by the name of every entry in use of the loaded table, each
  call on the disk the call before it left, its boolean result dropped; then the table as it
  was loaded, not an emptied one, has been written back to the sub-directory's sector,
  before the deallocation and the update of the parent. That stale table, with its entries
  still marked in use, is what the sector holds after the call.
\<close>

theorem Remove_writes_back_loaded_table:
  assumes r: "Remove (Suc k) E d nm True = Some (Inr (True, d1))"
      and t: "Remove_target E d nm True = Inr (Some (pd, ptable, fileName, sec, True))"
  shows "\<exists>d2. foldl (\<lambda>acc e. andThen acc (\<lambda>d'.
                    if 256 \<le> length nm + length (name e) then Some (Inl BufferOverflow)
                    else andThen (Remove k E d' (nm @ name e) True) (\<lambda>(b, d1). Some (Inr d1))))
                (Some (Inr d))
                (filter inUse (Directory_FetchFrom (newDirectory NumDirEntries) sec d))
                = Some (Inr d2) \<and>
              Remove_loop (\<lambda>d' p. Remove k E d' p True) nm
                 (Directory_FetchFrom (newDirectory NumDirEntries) sec d) d = Some (Inr d2) \<and>
              d1 = Remove_commit E pd ptable fileName sec
                     (Directory_WriteBack (Directory_FetchFrom (newDirectory NumDirEntries) sec d)
                        sec d2) \<and>
              (sec \<noteq> pd \<longrightarrow>
                 dirData d1 sec = Directory_FetchFrom (newDirectory NumDirEntries) sec d)"
proof -
  let ?t = "Directory_FetchFrom (newDirectory NumDirEntries) sec d"
  from r t obtain d3 where
    s: "Remove_subdirectory (\<lambda>d1 p. Remove k E d1 p True) nm sec d = Some (Inr d3)"
    and c: "d1 = Remove_commit E pd ptable fileName sec d3"
    by (auto simp: Remove.simps andThen_def split: option.splits sum.splits)
  from s obtain d2 where l: "Remove_loop (\<lambda>d' p. Remove k E d' p True) nm ?t d = Some (Inr d2)"
    and d3: "d3 = Directory_WriteBack ?t sec d2"
    by (auto simp: Remove_subdirectory_def Let_def andThen_def split: option.splits sum.splits)
  have "dirData d1 sec = ?t" if "sec \<noteq> pd"
    unfolding c d3 using that
    by (simp add: Remove_commit_def Let_def Directory_WriteBack_def Bitmap_WriteBack_def)
  with l l[unfolded Remove_loop_foldl] c d3 show ?thesis by blast
qed

text \<open>
  Claim C3 as stated fails: \<open>/d\<close> holds the file \<open>/x\<close>; after \<^verbatim>\<open>Remove("/d", TRUE)\<close> the
  file and the directory are gone from the bitmap and from the root directory, and the table
  written back to sector 4 still lists \<open>/x\<close> as in use.
\<close>

theorem Remove_persists_child_table_not_emptied:
  "\<exists>d1. Remove 2 env0 diskR ''/d'' True = Some (Inr (True, d1)) \<and>
        Directory_List (dirData d1 4) = [''/x''] \<and>
        Directory_List (dirData d1 1) = [] \<and> freeMapData d1 = {0, 1, 2, 3}"
proof -
  have "case Remove 2 env0 diskR ''/d'' True of
          Some (Inr (b, d1)) \<Rightarrow>
            b \<and> Directory_List (dirData d1 4) = [''/x''] \<and> Directory_List (dirData d1 1) = [] \<and>
            freeMapData d1 = {0, 1, 2, 3}
        | _ \<Rightarrow> False"
    by code_simp
  then show ?thesis by (auto split: option.splits sum.splits)
qed

text \<open>The theorem on the same disk.\<close>

theorem Remove_writes_back_loaded_table_witness:
  "\<exists>d1. Remove 2 env0 diskR ''/d'' True = Some (Inr (True, d1)) \<and>
        dirData d1 4 = Directory_FetchFrom (newDirectory NumDirEntries) 4 diskR \<and>
        inUse (dirData d1 4 ! 0) \<and> name (dirData d1 4 ! 0) = ''/x''"
proof -
  have "case Remove 2 env0 diskR ''/d'' True of Some (Inr (b, d1)) \<Rightarrow> b | _ \<Rightarrow> False"
    by code_simp
  then obtain d1 where r2: "Remove 2 env0 diskR ''/d'' True = Some (Inr (True, d1))"
    by (auto split: option.splits sum.splits)
  then have r: "Remove (Suc 1) env0 diskR ''/d'' True = Some (Inr (True, d1))"
    by (simp only: numeral_2_eq_2 One_nat_def)
  have "case Remove_target env0 diskR ''/d'' True of
          Inr (Some (pd, ptable, fileName, sec, dflag)) \<Rightarrow> pd = 1 \<and> sec = 4 \<and> dflag
        | _ \<Rightarrow> False"
    by code_simp
  then obtain ptable fileName where
    t: "Remove_target env0 diskR ''/d'' True = Inr (Some (1, ptable, fileName, 4, True))"
    by (auto split: sum.splits option.splits)
  from Remove_writes_back_loaded_table[OF r t]
  have w: "dirData d1 4 = Directory_FetchFrom (newDirectory NumDirEntries) 4 diskR"
    by auto
  have e: "inUse (Directory_FetchFrom (newDirectory NumDirEntries) 4 diskR ! 0) \<and>
           name (Directory_FetchFrom (newDirectory NumDirEntries) 4 diskR ! 0) = ''/x''"
    by code_simp
  show ?thesis
    by (rule exI[of _ d1]) (use r2 w e in \<open>simp only: simp_thms\<close>)
qed

text \<open>
  A call for an entry may fail and the removal goes on: \<open>/d\<close> holds \<open>/xy\<close> and \<open>/x\<close>; the
  call on \<open>/d/xy\<close> returns FALSE, the call on \<open>/d/x\<close> frees sectors 7 and 8, and the
  removal of \<open>/d\<close> returns TRUE.
\<close>

lemma Remove_goes_on_after_a_failure:
  "(case Remove 1 env0 diskR2 ''/d/xy'' True of Some (Inr (b, d1)) \<Rightarrow> \<not> b | _ \<Rightarrow> False) \<and>
   (case Remove 2 env0 diskR2 ''/d'' True of
      Some (Inr (b, d1)) \<Rightarrow> b \<and> freeMapData d1 = {0, 1, 2, 3, 9} | _ \<Rightarrow> False)"
  by code_simp

subsection \<open>Remove returns\<close>

lemma nonempty_FetchFrom:
  assumes "\<forall>e\<in>set (dirData d s). inUse e \<longrightarrow> name e \<noteq> []"
  shows "\<forall>e\<in>set (Directory_FetchFrom (newDirectory n) s d). inUse e \<longrightarrow> name e \<noteq> []"
proof
  fix e assume "e \<in> set (Directory_FetchFrom (newDirectory n) s d)"
  then have "e \<in> set (dirData d s) \<or> e = emptyEntry"
    by (auto simp: Directory_FetchFrom_def newDirectory_def dest: in_set_takeD in_set_dropD)
  with assms show "inUse e \<longrightarrow> name e \<noteq> []" by (auto simp: emptyEntry_def)
qed

lemma nonempty_Directory_Remove:
  assumes "\<forall>e\<in>set t. inUse e \<longrightarrow> name e \<noteq> []"
  shows "\<forall>e\<in>set (snd (Directory_Remove E t p)). inUse e \<longrightarrow> name e \<noteq> []"
proof
  fix e assume "e \<in> set (snd (Directory_Remove E t p))"
  then have "e \<in> set t \<or> \<not> inUse e"
    by (auto simp: Directory_Remove_def Let_def split: if_splits dest!: set_update_subset_insert[THEN subsetD])
  with assms show "inUse e \<longrightarrow> name e \<noteq> []" by auto
qed

lemma Remove_nonempty_names:
  assumes "nonempty_names d" "Remove k E d nm flag = Some (Inr (b, d1))"
  shows "nonempty_names d1"
  using Remove_tables[of "\<lambda>t. \<forall>e\<in>set t. inUse e \<longrightarrow> name e \<noteq> []" E d k nm flag b d1,
      OF nonempty_FetchFrom nonempty_Directory_Remove] assms
  unfolding nonempty_names_def by blast

lemma Remove_target_length:
  "Remove_target E d nm flag = Inr x \<Longrightarrow> length nm < 256"
  unfolding Remove_target_def split_path_def Let_def
  by (auto split: if_splits sum.splits list.splits)

lemma Remove_loop_returns:
  assumes rm: "\<And>d p. nonempty_names d \<Longrightarrow> length nm < length p \<Longrightarrow> rm d p \<noteq> None"
      and keep: "\<And>d p b d1. nonempty_names d \<Longrightarrow> rm d p = Some (Inr (b, d1)) \<Longrightarrow> nonempty_names d1"
  shows "nonempty_names d \<Longrightarrow> \<forall>e\<in>set es. inUse e \<longrightarrow> name e \<noteq> [] \<Longrightarrow>
         Remove_loop rm nm es d \<noteq> None"
proof (induction es arbitrary: d)
  case Nil
  then show ?case by simp
next
  case (Cons e es)
  show ?case
  proof (cases "inUse e \<and> \<not> 256 \<le> length nm + length (name e)")
    case False
    with Cons show ?thesis by auto
  next
    case True
    with Cons.prems(2) have "length nm < length (nm @ name e)" by simp
    from rm[OF Cons.prems(1) this] obtain r where r: "rm d (nm @ name e) = Some r" by blast
    show ?thesis
    proof (cases r)
      case (Inl err)
      with r True show ?thesis by (simp add: andThen_def)
    next
      case (Inr bd)
      obtain b d2 where bd: "bd = (b, d2)" by (cases bd)
      from keep[OF Cons.prems(1)] r Inr bd have "nonempty_names d2" by simp
      from Cons.IH[OF this] Cons.prems(2) have "Remove_loop rm nm es d2 \<noteq> None" by simp
      with r Inr bd True show ?thesis by (simp add: andThen_def)
    qed
  qed
qed

lemma Remove_Suc_returns:
  assumes rm: "\<And>d p. nonempty_names d \<Longrightarrow> length nm < length p \<Longrightarrow> Remove k E d p flag \<noteq> None"
      and n: "nonempty_names d"
  shows "Remove (Suc k) E d nm flag \<noteq> None"
proof (cases "Remove_target E d nm flag")
  case (Inl err)
  then show ?thesis by (simp add: Remove.simps)
next
  case (Inr x)
  show ?thesis
  proof (cases x)
    case None
    with Inr show ?thesis by (simp add: Remove.simps)
  next
    case (Some tg)
    obtain pd ptable fileName sec dflag where tg: "tg = (pd, ptable, fileName, sec, dflag)"
      by (cases tg)
    show ?thesis
    proof (cases "dflag \<and> flag")
      case False
      with Inr Some tg show ?thesis by (auto simp: Remove.simps andThen_def)
    next
      case True
      let ?t = "Directory_FetchFrom (newDirectory NumDirEntries) sec d"
      let ?rm = "\<lambda>d1 p. Remove k E d1 p flag"
      from n have tn: "\<forall>e\<in>set ?t. inUse e \<longrightarrow> name e \<noteq> []"
        unfolding nonempty_names_def by (intro nonempty_FetchFrom) blast
      have "Remove_loop ?rm nm ?t d \<noteq> None"
      proof (rule Remove_loop_returns[where rm = ?rm])
        show "Remove k E d' p flag \<noteq> None" if "nonempty_names d'" "length nm < length p" for d' p
          using rm[OF that] .
        show "nonempty_names d1" if "nonempty_names d'" "Remove k E d' p flag = Some (Inr (b, d1))"
          for d' p b d1
          using Remove_nonempty_names[OF that] .
        show "nonempty_names d" by (rule n)
        show "\<forall>e\<in>set ?t. inUse e \<longrightarrow> name e \<noteq> []" by (rule tn)
      qed
      then have "Remove_subdirectory ?rm nm sec d \<noteq> None"
        by (auto simp: Remove_subdirectory_def Let_def andThen_def split: sum.splits)
      with Inr Some tg True show ?thesis
        by (auto simp: Remove.simps andThen_def split: sum.splits)
    qed
  qed
qed

text \<open>
  \<^verbatim>\<open>Remove\<close> calls itself on a longer path each time when no entry in use has an empty
  name, and a path of 256 characters or more stops it at \<^verbatim>\<open>strcpy(temp, name)\<close>: a bound
  of 257 on the depth of the calls is never reached.
\<close>

lemma Remove_returns_bound:
  "nonempty_names d \<Longrightarrow> 256 < Suc k + length nm \<Longrightarrow> Remove (Suc k) E d nm flag \<noteq> None"
proof (induction k arbitrary: d nm)
  case 0
  then have "256 \<le> length nm" by simp
  then have "split_path nm = Inl BufferOverflow" by (simp add: split_path_def)
  then have "Remove_target E d nm flag = Inl BufferOverflow"
    by (simp add: Remove_target_def)
  then show ?case by (simp add: Remove.simps)
next
  case (Suc k)
  show ?case
  proof (rule Remove_Suc_returns[OF _ Suc.prems(1)])
    fix d' and p :: string
    assume "nonempty_names d'" "length nm < length p"
    with Suc.prems(2) show "Remove (Suc k) E d' p flag \<noteq> None"
      by (intro Suc.IH) simp_all
  qed
qed

lemma Remove_returns:
  assumes "nonempty_names d"
  shows "\<exists>r. Remove 257 E d nm flag = Some r"
proof -
  have "Remove (Suc 256) E d nm flag \<noteq> None"
    using assms by (intro Remove_returns_bound) simp_all
  then show ?thesis by (simp only: eval_nat_numeral) auto
qed

end
